theory Spec2Isabelle
  imports Main "HOL-Library.Sublist"
begin

section \<open>GitPend: scanning a directory tree for repositories with pending work\<close>

text \<open>
  A shallow embedding of \<^verbatim>\<open>src/index.js\<close>. The program talks to two collaborators,
  the file system (\<^verbatim>\<open>fs.readdirSync\<close>, \<^verbatim>\<open>fs.existsSync\<close>) and the \<^verbatim>\<open>git\<close>
  command (\<^verbatim>\<open>execSync\<close>). Both are inputs of the model: a file system is a pair of
  functions, a command run is a function that returns either the message of the thrown
  error or the text written to standard output.

  A path is the list of its components (\<^verbatim>\<open>path.join(basePath, entry.name)\<close> appends one
  component), so a path prefix is a list prefix. A string is a \<open>char list\<close>; a
  character stands for a UTF-16 code unit below 256.
\<close>

subsection \<open>Strings\<close>

text \<open>\<^verbatim>\<open>String.prototype.startsWith\<close>.\<close>

definition startsWith :: "string \<Rightarrow> string \<Rightarrow> bool" where
  "startsWith s p = (take (length p) s = p)"

text \<open>
  The white space and line terminators that \<^verbatim>\<open>trim\<close> and \<^verbatim>\<open>parseInt\<close> strip: tab, line
  feed, vertical tab, form feed, carriage return, space and the no-break space.
\<close>

definition isWhiteSpace :: "char \<Rightarrow> bool" where
  "isWhiteSpace c = (c \<in> set [CHR 0x09, CHR 0x0A, CHR 0x0B, CHR 0x0C, CHR 0x0D, CHR 0x20, CHR 0xA0])"

definition trim :: "string \<Rightarrow> string" where
  "trim s = rev (dropWhile isWhiteSpace (rev (dropWhile isWhiteSpace s)))"

text \<open>\<^verbatim>\<open>s.split(sep)\<close> for a separator of one character: the empty string gives one empty piece.\<close>

fun split :: "char \<Rightarrow> string \<Rightarrow> string list" where
  "split sep [] = [[]]"
| "split sep (c # cs) =
     (if c = sep then [] # split sep cs
      else (case split sep cs of
              [] \<Rightarrow> [[c]]
            | piece # pieces \<Rightarrow> (c # piece) # pieces))"

definition newline :: char where
  "newline = CHR 0x0A"

text \<open>
  \<^verbatim>\<open>parseInt(s, 10)\<close>: leading white space is skipped, one sign is read, then the longest
  run of decimal digits; \<open>None\<close> is \<^verbatim>\<open>NaN\<close> (no digit). Integers are exact here (the
  code's doubles are exact below \<open>2 ^ 53\<close>).
\<close>

definition isDigit :: "char \<Rightarrow> bool" where
  "isDigit c = (c \<in> set ''0123456789'')"

definition digitValue :: "char \<Rightarrow> int" where
  "digitValue c = int (of_char c) - 48"

definition parseInt :: "string \<Rightarrow> int option" where
  "parseInt s =
     (let t = dropWhile isWhiteSpace s;
          negative = startsWith t ''-'';
          u = (if startsWith t ''-'' \<or> startsWith t ''+'' then tl t else t);
          z = takeWhile isDigit u
      in if z = [] then None
         else (let mathInt = foldl (\<lambda>acc c. 10 * acc + digitValue c) 0 z
               in Some (if negative then - mathInt else mathInt)))"

text \<open>\<^verbatim>\<open>parseInt(s, 10) || d\<close>: \<^verbatim>\<open>NaN\<close> and zero are falsy.\<close>

definition orDefault :: "int option \<Rightarrow> int \<Rightarrow> int" where
  "orDefault v d = (case v of None \<Rightarrow> d | Some n \<Rightarrow> if n = 0 then d else n)"

subsection \<open>The file system and the tree walker\<close>

type_synonym path = "string list"

text \<open>A \<^verbatim>\<open>Dirent\<close> as \<^verbatim>\<open>readdirSync(dir, {withFileTypes: true})\<close> returns it.\<close>

datatype dirent = Dirent (name: string) (isDirectory: bool)

text \<open>
  \<open>readdirSync fs p = None\<close> when the call throws (permission denied, not a directory,
  deleted meanwhile).
\<close>

record filesystem =
  readdirSync :: "path \<Rightarrow> dirent list option"
  existsSync :: "path \<Rightarrow> bool"

text \<open>The calls a traversal makes on the file system, in order.\<close>

datatype fs_call = ReaddirCall path | ExistsCall path

definition isGitRepo :: "filesystem \<Rightarrow> path \<Rightarrow> bool" where
  "isGitRepo fs dirPath = existsSync fs (dirPath @ [''.git''])"

text \<open>The test of lines 120 to 123: the directories that are never looked at.\<close>

definition skipped :: "string \<Rightarrow> bool" where
  "skipped n =
     (startsWith n ''.'' \<or> n = ''node_modules'' \<or> n = ''vendor'' \<or> n = ''__pycache__'')"

text \<open>
  \<^verbatim>\<open>findGitRepos\<close>, returning the repositories together with the file system calls made.
  The \<^verbatim>\<open>try\<close> block covers the listing and the loop; only the listing can throw, and then
  nothing has been pushed yet. The recursion ends because \<open>currentDepth\<close> grows towards
  \<open>maxDepth\<close>.
\<close>

function findGitRepos_traced ::
  "filesystem \<Rightarrow> path \<Rightarrow> int \<Rightarrow> int \<Rightarrow> path list \<times> fs_call list" where
  "findGitRepos_traced fs basePath maxDepth currentDepth =
     (if currentDepth > maxDepth then ([], [])
      else case readdirSync fs basePath of
        None \<Rightarrow> ([], [ReaddirCall basePath])
      | Some entries \<Rightarrow>
          (let rs = map (\<lambda>entry.
                 if \<not> isDirectory entry then ([], [])
                 else if skipped (name entry) then ([], [])
                 else (let fullPath = basePath @ [name entry] in
                   if isGitRepo fs fullPath
                   then ([fullPath], [ExistsCall (fullPath @ [''.git''])])
                   else (case findGitRepos_traced fs fullPath maxDepth (currentDepth + 1) of
                           (repos, calls) \<Rightarrow>
                             (repos, ExistsCall (fullPath @ [''.git'']) # calls))))
               entries
           in (concat (map fst rs), ReaddirCall basePath # concat (map snd rs))))"
  by pat_completeness auto
termination
  by (relation "measure (\<lambda>(fs, basePath, maxDepth, currentDepth).
        nat (maxDepth + 1 - currentDepth))") auto

declare findGitRepos_traced.simps [simp del]

definition findGitRepos :: "filesystem \<Rightarrow> path \<Rightarrow> int \<Rightarrow> int \<Rightarrow> path list" where
  "findGitRepos fs basePath maxDepth currentDepth =
     fst (findGitRepos_traced fs basePath maxDepth currentDepth)"

definition findGitRepos_calls :: "filesystem \<Rightarrow> path \<Rightarrow> int \<Rightarrow> int \<Rightarrow> fs_call list" where
  "findGitRepos_calls fs basePath maxDepth currentDepth =
     snd (findGitRepos_traced fs basePath maxDepth currentDepth)"

text \<open>
  The directory tree as the walker can see it: \<open>n\<close> is a subdirectory of \<open>dir\<close> when the
  listing of \<open>dir\<close> succeeds and has a directory entry named \<open>n\<close>.
\<close>

definition listedDir :: "filesystem \<Rightarrow> path \<Rightarrow> string \<Rightarrow> bool" where
  "listedDir fs dir n =
     (case readdirSync fs dir of None \<Rightarrow> False | Some entries \<Rightarrow> Dirent n True \<in> set entries)"

text \<open>No directory lists two entries of one name, as on every file system.\<close>

definition distinctListings :: "filesystem \<Rightarrow> bool" where
  "distinctListings fs = (\<forall>q es. readdirSync fs q = Some es \<longrightarrow> distinct (map name es))"

text \<open>\<open>dirChain fs base rest\<close>: \<open>base @ rest\<close> is a directory reached from \<open>base\<close> through listed directories.\<close>

fun dirChain :: "filesystem \<Rightarrow> path \<Rightarrow> string list \<Rightarrow> bool" where
  "dirChain fs base [] = True"
| "dirChain fs base (n # rest) = (listedDir fs base n \<and> dirChain fs (base @ [n]) rest)"

text \<open>A repository \<open>rest\<close> below \<open>base\<close>: a directory under \<open>base\<close> that holds the marker.\<close>

definition repoBelow :: "filesystem \<Rightarrow> path \<Rightarrow> string list \<Rightarrow> bool" where
  "repoBelow fs base rest = (rest \<noteq> [] \<and> dirChain fs base rest \<and> isGitRepo fs (base @ rest))"

text \<open>
  The walker's rules as the specification words them (pruning and short circuit):
  \<open>reported fs base rest\<close> holds when every component of \<open>rest\<close> is a listed directory
  with a name that is not pruned, the last one holds the marker and none before it does.
\<close>

fun reported :: "filesystem \<Rightarrow> path \<Rightarrow> string list \<Rightarrow> bool" where
  "reported fs base [] = False"
| "reported fs base [n] =
     (listedDir fs base n \<and> \<not> skipped n \<and> isGitRepo fs (base @ [n]))"
| "reported fs base (n # m # rest) =
     (listedDir fs base n \<and> \<not> skipped n \<and> \<not> isGitRepo fs (base @ [n])
      \<and> reported fs (base @ [n]) (m # rest))"

subsection \<open>The status collector and classifier\<close>

datatype git_cmd = GitStatusPorcelain | GitBranchShowCurrent | GitRevListAhead | GitStashList

text \<open>
  \<^verbatim>\<open>execSync(cmd, {cwd: repoPath, ...})\<close>: \<open>Inl message\<close> when the call throws an error with
  that message, \<open>Inr out\<close> when it returns the standard output.
\<close>

type_synonym exec = "git_cmd \<Rightarrow> path \<Rightarrow> string + string"

record status_counts =
  branch :: string
  staged :: nat
  modified :: nat
  untracked :: nat
  conflicts :: nat
  unpushed :: int
  stashes :: nat
  hasChanges :: bool

text \<open>The two object shapes \<^verbatim>\<open>getGitStatus\<close> returns: the counts, or \<^verbatim>\<open>{error, hasChanges}\<close>.\<close>

datatype status = Status status_counts | StatusError string bool

fun hasChangesOf :: "status \<Rightarrow> bool" where
  "hasChangesOf (Status r) = hasChanges r"
| "hasChangesOf (StatusError message hc) = hc"

text \<open>\<^verbatim>\<open>text.split('\n').filter(line => line.trim())\<close>: the empty string is falsy.\<close>

definition nonBlankLines :: "string \<Rightarrow> string list" where
  "nonBlankLines text = filter (\<lambda>line. trim line \<noteq> []) (split newline text)"

text \<open>The regular expression \<^verbatim>\<open>/^[MADRC]/\<close>.\<close>

definition isStaged :: "string \<Rightarrow> bool" where
  "isStaged line = (case line of [] \<Rightarrow> False | c # _ \<Rightarrow> c \<in> set ''MADRC'')"

text \<open>The regular expression \<^verbatim>\<open>/^.[MD]/\<close>: the dot matches no line terminator.\<close>

definition isModified :: "string \<Rightarrow> bool" where
  "isModified line =
     (case line of
        c # d # _ \<Rightarrow> c \<noteq> CHR 0x0A \<and> c \<noteq> CHR 0x0D \<and> d \<in> set ''MD''
      | _ \<Rightarrow> False)"

definition isUntracked :: "string \<Rightarrow> bool" where
  "isUntracked line = startsWith line ''??''"

definition isConflict :: "string \<Rightarrow> bool" where
  "isConflict line = (startsWith line ''UU'' \<or> startsWith line ''AA'' \<or> startsWith line ''DD'')"

definition getGitStatus :: "exec \<Rightarrow> path \<Rightarrow> status" where
  "getGitStatus execSync repoPath =
     (case execSync GitStatusPorcelain repoPath of
        Inl message \<Rightarrow> StatusError message False
      | Inr statusText \<Rightarrow>
          (let branchName =
                 (case execSync GitBranchShowCurrent repoPath of
                    Inl _ \<Rightarrow> ''detached HEAD''
                  | Inr out \<Rightarrow> if trim out = [] then ''detached HEAD'' else trim out);
               unpushedCount =
                 (case execSync GitRevListAhead repoPath of
                    Inl _ \<Rightarrow> 0
                  | Inr ahead \<Rightarrow> orDefault (parseInt (trim ahead)) 0);
               stashCount =
                 (case execSync GitStashList repoPath of
                    Inl _ \<Rightarrow> 0
                  | Inr stashList \<Rightarrow> length (nonBlankLines stashList));
               lines = nonBlankLines statusText
           in Status \<lparr> branch = branchName,
                staged = length (filter isStaged lines),
                modified = length (filter isModified lines),
                untracked = length (filter isUntracked lines),
                conflicts = length (filter isConflict lines),
                unpushed = unpushedCount,
                stashes = stashCount,
                hasChanges = (length lines > 0 \<or> unpushedCount > 0 \<or> stashCount > 0) \<rparr>))"

subsection \<open>The report and the exit status\<close>

text \<open>
  \<^verbatim>\<open>path.relative(from, to)\<close> on absolute paths: the common components are dropped and
  each remaining component of \<open>from\<close> becomes \<^verbatim>\<open>..\<close>.
\<close>

fun relative :: "path \<Rightarrow> path \<Rightarrow> path" where
  "relative [] to = to"
| "relative (a # as) [] = replicate (length (a # as)) ''..''"
| "relative (a # as) (b # bs) =
     (if a = b then relative as bs else replicate (length (a # as)) ''..'' @ (b # bs))"

text \<open>
  A rendered line is kept as its parts rather than as the coloured text. Every rendered
  line is a non-empty string, so \<open>Some line\<close> is truthy and \<open>None\<close> is \<^verbatim>\<open>null\<close>.
  A branch of \<open>None\<close> is \<^verbatim>\<open>undefined\<close>.
\<close>

datatype part =
  StagedPart nat | ModifiedPart nat | UntrackedPart nat | ConflictsPart nat
  | UnpushedPart int | StashedPart nat

datatype line =
  ErrorLine path string
  | PendingLine path "string option" "part list"
  | CleanLine path "string option"

fun formatStatus :: "path \<Rightarrow> status \<Rightarrow> path \<Rightarrow> line option" where
  "formatStatus repoPath (StatusError message hc) basePath =
     (if message \<noteq> [] then Some (ErrorLine (relative basePath repoPath) message)
      else if \<not> hc then None
      else Some (PendingLine (relative basePath repoPath) None []))"
| "formatStatus repoPath (Status r) basePath =
     (if \<not> hasChanges r then None
      else Some (PendingLine (relative basePath repoPath) (Some (branch r))
        ((if staged r > 0 then [StagedPart (staged r)] else [])
         @ (if modified r > 0 then [ModifiedPart (modified r)] else [])
         @ (if untracked r > 0 then [UntrackedPart (untracked r)] else [])
         @ (if conflicts r > 0 then [ConflictsPart (conflicts r)] else [])
         @ (if unpushed r > 0 then [UnpushedPart (unpushed r)] else [])
         @ (if stashes r > 0 then [StashedPart (stashes r)] else []))))"

fun branchOf :: "status \<Rightarrow> string option" where
  "branchOf (Status r) = Some (branch r)"
| "branchOf (StatusError message hc) = None"

record options =
  searchPath :: path
  maxDepth :: int
  showAll :: bool
  showHelp :: bool

text \<open>
  The argument loop of \<^verbatim>\<open>main\<close>. \<^verbatim>\<open>args[++i]\<close> past the end is \<^verbatim>\<open>undefined\<close>, which
  \<^verbatim>\<open>parseInt\<close> reads as the string \<^verbatim>\<open>undefined\<close>. \<open>resolve\<close> is \<^verbatim>\<open>path.resolve\<close>.
\<close>

fun parseArgs :: "(string \<Rightarrow> path) \<Rightarrow> string list \<Rightarrow> options \<Rightarrow> options" where
  "parseArgs resolve [] opts = opts"
| "parseArgs resolve (arg # rest) opts =
     (if arg = ''-h'' \<or> arg = ''--help'' then parseArgs resolve rest (opts\<lparr>showHelp := True\<rparr>)
      else if arg = ''-a'' \<or> arg = ''--all'' then parseArgs resolve rest (opts\<lparr>showAll := True\<rparr>)
      else if arg = ''-d'' \<or> arg = ''--depth'' then
        (case rest of
           [] \<Rightarrow> opts\<lparr>maxDepth := orDefault (parseInt ''undefined'') 3\<rparr>
         | v # rest' \<Rightarrow> parseArgs resolve rest' (opts\<lparr>maxDepth := orDefault (parseInt v) 3\<rparr>))
      else if \<not> startsWith arg ''-'' then parseArgs resolve rest (opts\<lparr>searchPath := resolve arg\<rparr>)
      else parseArgs resolve rest opts)"

record env =
  fileSystem :: filesystem
  cwd :: path
  pathResolve :: "string \<Rightarrow> path"
  execSync :: exec

text \<open>The loop of lines 248 to 264, with the counter and the rendered lines as its state.\<close>

fun scanRepos :: "exec \<Rightarrow> path \<Rightarrow> bool \<Rightarrow> path list \<Rightarrow> nat \<times> line list \<Rightarrow> nat \<times> line list" where
  "scanRepos ex base all [] acc = acc"
| "scanRepos ex base all (repoPath # rest) (reposWithChanges, results) =
     (let st = getGitStatus ex repoPath;
          formatted = formatStatus repoPath st base;
          reposWithChanges' = (if hasChangesOf st then reposWithChanges + 1 else reposWithChanges);
          results' =
            (if formatted \<noteq> None \<or> all then
               (if all \<and> formatted = None
                then results @ [CleanLine (relative base repoPath) (branchOf st)]
                else (case formatted of Some l \<Rightarrow> results @ [l] | None \<Rightarrow> results))
             else results)
      in scanRepos ex base all rest (reposWithChanges', results'))"

datatype printed =
  HelpText | PathError path | ScanHeader path | NoReposFound
  | Report "line list" | Summary int int int

text \<open>Lines 186 to 205: the options \<^verbatim>\<open>main\<close> reads from its arguments.\<close>

definition optionsOf :: "env \<Rightarrow> string list \<Rightarrow> options" where
  "optionsOf e args =
     parseArgs (pathResolve e) args
       \<lparr> searchPath = cwd e, maxDepth = 3, showAll = False, showHelp = False \<rparr>"

text \<open>Line 237: the repositories the scan finds.\<close>

definition scannedRepos :: "env \<Rightarrow> string list \<Rightarrow> path list" where
  "scannedRepos e args =
     findGitRepos (fileSystem e) (searchPath (optionsOf e args)) (maxDepth (optionsOf e args)) 0"

text \<open>\<^verbatim>\<open>main\<close>: what is printed, and the status given to \<^verbatim>\<open>process.exit\<close>.\<close>

definition main :: "env \<Rightarrow> string list \<Rightarrow> printed list \<times> int" where
  "main e args =
     (let opts = optionsOf e args
      in if showHelp opts then ([HelpText], 0)
         else if \<not> existsSync (fileSystem e) (searchPath opts)
         then ([PathError (searchPath opts)], 1)
         else (let repos = scannedRepos e args
               in if length repos = 0 then ([ScanHeader (searchPath opts), NoReposFound], 0)
                  else (case scanRepos (execSync e) (searchPath opts) (showAll opts) repos (0, []) of
                          (reposWithChanges, results) \<Rightarrow>
                            ([ScanHeader (searchPath opts)]
                             @ (if length results > 0 then [Report results] else [])
                             @ [Summary (int (length repos)) (int reposWithChanges)
                                  (int (length repos) - int reposWithChanges)],
                             if reposWithChanges > 0 then 1 else 0))))"

subsection \<open>Concrete inputs\<close>

text \<open>
  A small tree under \<^verbatim>\<open>/home\<close>. \<^verbatim>\<open>app\<close> is a repository with a repository \<^verbatim>\<open>sub\<close> inside;
  \<^verbatim>\<open>node_modules/pkg\<close> and \<^verbatim>\<open>.cache\<close> hold the marker too; \<^verbatim>\<open>work/svc/api\<close> is a
  repository three levels down; \<^verbatim>\<open>locked\<close> cannot be listed; the root itself holds the
  marker.
\<close>

definition demoListing :: "path \<Rightarrow> dirent list option" where
  "demoListing p =
     (if p = [''home''] then
        Some [Dirent ''.git'' True, Dirent ''app'' True, Dirent ''notes.txt'' False,
              Dirent ''.cache'' True, Dirent ''node_modules'' True, Dirent ''work'' True,
              Dirent ''locked'' True]
      else if p = [''home'', ''app''] then Some [Dirent ''.git'' True, Dirent ''sub'' True]
      else if p = [''home'', ''app'', ''sub''] then Some [Dirent ''.git'' True]
      else if p = [''home'', ''.cache''] then Some [Dirent ''.git'' True]
      else if p = [''home'', ''node_modules''] then Some [Dirent ''pkg'' True]
      else if p = [''home'', ''node_modules'', ''pkg''] then Some [Dirent ''.git'' True]
      else if p = [''home'', ''work''] then Some [Dirent ''svc'' True]
      else if p = [''home'', ''work'', ''svc''] then Some [Dirent ''api'' True]
      else if p = [''home'', ''work'', ''svc'', ''api''] then Some [Dirent ''.git'' True]
      else None)"

definition demoExists :: "path \<Rightarrow> bool" where
  "demoExists p =
     (p \<in> set [[''home''], [''home'', ''.git''], [''home'', ''app''], [''home'', ''app'', ''.git''],
        [''home'', ''app'', ''sub''], [''home'', ''app'', ''sub'', ''.git''],
        [''home'', ''notes.txt''], [''home'', ''.cache''], [''home'', ''.cache'', ''.git''],
        [''home'', ''node_modules''], [''home'', ''node_modules'', ''pkg''],
        [''home'', ''node_modules'', ''pkg'', ''.git''], [''home'', ''work''],
        [''home'', ''work'', ''svc''], [''home'', ''work'', ''svc'', ''api''],
        [''home'', ''work'', ''svc'', ''api'', ''.git''], [''home'', ''locked'']])"

definition demoFs :: filesystem where
  "demoFs = \<lparr> readdirSync = demoListing, existsSync = demoExists \<rparr>"

text \<open>
  What \<^verbatim>\<open>git\<close> answers there: \<^verbatim>\<open>app\<close> has one line of each kind, two commits ahead and
  one stash; in \<^verbatim>\<open>work/svc/api\<close> the status query fails; anywhere else the work tree has
  one file whose type changed and the other three queries fail.
\<close>

definition demoExec :: exec where
  "demoExec cmd p =
     (if p = [''home'', ''app''] then
        (case cmd of
           GitStatusPorcelain \<Rightarrow>
             Inr (''M  file1.txt'' @ [newline] @ '' M file2.txt'' @ [newline]
                  @ ''?? file3.txt'' @ [newline] @ ''UU file4.txt'' @ [newline])
         | GitBranchShowCurrent \<Rightarrow> Inr (''main'' @ [newline])
         | GitRevListAhead \<Rightarrow> Inr (''2'' @ [newline])
         | GitStashList \<Rightarrow> Inr (''stash@'' @ ''{0}: WIP on main'' @ [newline]))
      else if p = [''home'', ''work'', ''svc'', ''api''] then
        (case cmd of
           GitStatusPorcelain \<Rightarrow> Inl ''Command failed: git status --porcelain''
         | _ \<Rightarrow> Inr [])
      else
        (case cmd of
           GitStatusPorcelain \<Rightarrow> Inr ('' T link.txt'' @ [newline])
         | _ \<Rightarrow> Inl ''Command failed''))"

text \<open>\<^verbatim>\<open>path.resolve\<close> on an absolute POSIX path: its non-empty components.\<close>

definition posixResolve :: "string \<Rightarrow> path" where
  "posixResolve arg = filter (\<lambda>c. c \<noteq> []) (split (CHR ''/'') arg)"

definition demoEnv :: env where
  "demoEnv = \<lparr> fileSystem = demoFs, cwd = [''home''], pathResolve = posixResolve,
               execSync = demoExec \<rparr>"

text \<open>
  A workspace of fifteen repositories side by side; two of them have a modified file,
  none has an upstream or a stash.
\<close>

definition fifteenNames :: "string list" where
  "fifteenNames = [''r01'', ''r02'', ''r03'', ''r04'', ''r05'', ''r06'', ''r07'', ''r08'',
                   ''r09'', ''r10'', ''r11'', ''r12'', ''r13'', ''r14'', ''r15'']"

definition fifteenFs :: filesystem where
  "fifteenFs =
     \<lparr> readdirSync = (\<lambda>p. if p = [''ws''] then Some (map (\<lambda>n. Dirent n True) fifteenNames)
                          else if p \<in> set (map (\<lambda>n. [''ws'', n]) fifteenNames)
                          then Some [Dirent ''.git'' True]
                          else None),
       existsSync = (\<lambda>p. p = [''ws''] \<or> p \<in> set (map (\<lambda>n. [''ws'', n]) fifteenNames)
                          \<or> p \<in> set (map (\<lambda>n. [''ws'', n, ''.git'']) fifteenNames)) \<rparr>"

definition fifteenExec :: exec where
  "fifteenExec cmd p =
     (case cmd of
        GitStatusPorcelain \<Rightarrow>
          if p = [''ws'', ''r03''] \<or> p = [''ws'', ''r11'']
          then Inr ('' M a.txt'' @ [newline]) else Inr []
      | GitBranchShowCurrent \<Rightarrow> Inr (''main'' @ [newline])
      | GitRevListAhead \<Rightarrow> Inl ''Command failed: no upstream''
      | GitStashList \<Rightarrow> Inr [])"

definition fifteenEnv :: env where
  "fifteenEnv = \<lparr> fileSystem = fifteenFs, cwd = [''ws''], pathResolve = posixResolve,
                  execSync = fifteenExec \<rparr>"



subsection \<open>Facts about the tree walker\<close>

text \<open>One round of the loop, for the repositories and for the calls.\<close>

lemma traced_fst_step:
  assumes "\<not> D < d" and "readdirSync fs b = Some es"
  shows "fst (findGitRepos_traced fs b D d) =
     concat (map (\<lambda>e. if isDirectory e \<and> \<not> skipped (name e)
                       then (if isGitRepo fs (b @ [name e]) then [b @ [name e]]
                             else fst (findGitRepos_traced fs (b @ [name e]) D (d + 1)))
                       else []) es)"
proof -
  have "fst (findGitRepos_traced fs b D d) = concat (map fst (map (\<lambda>entry.
                 if \<not> isDirectory entry then ([], [])
                 else if skipped (name entry) then ([], [])
                 else (let fullPath = b @ [name entry] in
                   if isGitRepo fs fullPath
                   then ([fullPath], [ExistsCall (fullPath @ [''.git''])])
                   else (case findGitRepos_traced fs fullPath D (d + 1) of
                           (repos, calls) \<Rightarrow>
                             (repos, ExistsCall (fullPath @ [''.git'']) # calls)))) es))"
    using assms by (subst findGitRepos_traced.simps) (simp add: Let_def)
  also have "\<dots> = concat (map (\<lambda>e. if isDirectory e \<and> \<not> skipped (name e)
                       then (if isGitRepo fs (b @ [name e]) then [b @ [name e]]
                             else fst (findGitRepos_traced fs (b @ [name e]) D (d + 1)))
                       else []) es)"
    unfolding map_map by (intro arg_cong[where f=concat] map_cong refl) (simp add: Let_def split: prod.split)
  finally show ?thesis .
qed

lemma traced_snd_step:
  assumes "\<not> D < d" and "readdirSync fs b = Some es"
  shows "snd (findGitRepos_traced fs b D d) =
     ReaddirCall b # concat (map (\<lambda>e. if isDirectory e \<and> \<not> skipped (name e)
                       then ExistsCall (b @ [name e] @ [''.git'']) #
                            (if isGitRepo fs (b @ [name e]) then []
                             else snd (findGitRepos_traced fs (b @ [name e]) D (d + 1)))
                       else []) es)"
proof -
  have "snd (findGitRepos_traced fs b D d) = ReaddirCall b # concat (map snd (map (\<lambda>entry.
                 if \<not> isDirectory entry then ([], [])
                 else if skipped (name entry) then ([], [])
                 else (let fullPath = b @ [name entry] in
                   if isGitRepo fs fullPath
                   then ([fullPath], [ExistsCall (fullPath @ [''.git''])])
                   else (case findGitRepos_traced fs fullPath D (d + 1) of
                           (repos, calls) \<Rightarrow>
                             (repos, ExistsCall (fullPath @ [''.git'']) # calls)))) es))"
    using assms by (subst findGitRepos_traced.simps) (simp add: Let_def)
  also have "\<dots> = ReaddirCall b # concat (map (\<lambda>e. if isDirectory e \<and> \<not> skipped (name e)
                       then ExistsCall (b @ [name e] @ [''.git'']) #
                            (if isGitRepo fs (b @ [name e]) then []
                             else snd (findGitRepos_traced fs (b @ [name e]) D (d + 1)))
                       else []) es)"
    unfolding map_map by (intro arg_cong[where f="\<lambda>x. ReaddirCall b # concat x"] map_cong refl) (simp add: Let_def split: prod.split)
  finally show ?thesis .
qed

lemma reported_unfold:
  "reported fs b rest \<longleftrightarrow>
     (\<exists>n rest'. rest = n # rest' \<and> listedDir fs b n \<and> \<not> skipped n \<and>
        (if rest' = [] then isGitRepo fs (b @ [n])
         else \<not> isGitRepo fs (b @ [n]) \<and> reported fs (b @ [n]) rest'))"
  by (cases "(fs, b, rest)" rule: reported.cases) auto


lemma reported_nonempty: "reported fs b rest \<Longrightarrow> rest \<noteq> []"
  by (cases rest) auto

lemma traced_too_deep: "D < d \<Longrightarrow> findGitRepos_traced fs b D d = ([], [])"
  by (subst findGitRepos_traced.simps) simp

lemma traced_unreadable:
  "\<not> D < d \<Longrightarrow> readdirSync fs b = None \<Longrightarrow> findGitRepos_traced fs b D d = ([], [ReaddirCall b])"
  by (subst findGitRepos_traced.simps) simp

lemma listedDir_iff:
  "readdirSync fs b = Some es \<Longrightarrow> listedDir fs b n \<longleftrightarrow> (\<exists>e \<in> set es. isDirectory e \<and> name e = n)"
proof -
  assume es: "readdirSync fs b = Some es"
  have "Dirent n True \<in> set es \<longleftrightarrow> (\<exists>e \<in> set es. isDirectory e \<and> name e = n)"
  proof
    assume "Dirent n True \<in> set es"
    then show "\<exists>e \<in> set es. isDirectory e \<and> name e = n"
      by (rule bexI[rotated]) simp
  next
    assume "\<exists>e \<in> set es. isDirectory e \<and> name e = n"
    then obtain e where e: "e \<in> set es" and d: "isDirectory e" "name e = n" by blast
    have "e = Dirent n True" using d by (cases e) simp
    with e show "Dirent n True \<in> set es" by simp
  qed
  with es show ?thesis by (simp add: listedDir_def)
qed

lemma traced_repos_iff:
  "p \<in> set (fst (findGitRepos_traced fs b D d)) \<longleftrightarrow>
     (\<exists>rest. p = b @ rest \<and> reported fs b rest \<and> d + int (length rest) \<le> D + 1)"
proof (induction "nat (D + 1 - d)" arbitrary: b d p)
  case 0
  then have deep: "D < d" by simp
  have "\<not> (\<exists>rest. p = b @ rest \<and> reported fs b rest \<and> d + int (length rest) \<le> D + 1)"
  proof
    assume "\<exists>rest. p = b @ rest \<and> reported fs b rest \<and> d + int (length rest) \<le> D + 1"
    then obtain rest where r: "reported fs b rest" "d + int (length rest) \<le> D + 1" by blast
    from r(1) have "rest \<noteq> []" by (rule reported_nonempty)
    then have "1 \<le> int (length rest)" by (cases rest) auto
    with r(2) deep show False by simp
  qed
  with deep show ?case by (simp add: traced_too_deep)
next
  case (Suc k)
  then have shallow: "\<not> D < d" and k: "k = nat (D + 1 - (d + 1))" by simp_all
  show ?case
  proof (cases "readdirSync fs b")
    case None
    then have "\<not> reported fs b rest" for rest
      by (subst reported_unfold) (simp add: listedDir_def)
    with None shallow show ?thesis by (simp add: traced_unreadable)
  next
    case (Some es)
    note IH = Suc.hyps(1)[OF k]
    define F where "F = (\<lambda>e. if isDirectory e \<and> \<not> skipped (name e)
                       then (if isGitRepo fs (b @ [name e]) then [b @ [name e]]
                             else fst (findGitRepos_traced fs (b @ [name e]) D (d + 1)))
                       else [])"
    show ?thesis
    proof
      assume "p \<in> set (fst (findGitRepos_traced fs b D d))"
      then have "p \<in> set (concat (map F es))"
        by (simp only: traced_fst_step[OF shallow Some] F_def)
      then obtain e where e0: "e \<in> set es" and pe: "p \<in> set (F e)"
        by auto
      from pe have e1: "isDirectory e" "\<not> skipped (name e)"
        by (auto simp: F_def split: if_splits)
      note e = e0 e1
      from pe e1 have p: "if isGitRepo fs (b @ [name e]) then p = b @ [name e]
                else p \<in> set (fst (findGitRepos_traced fs (b @ [name e]) D (d + 1)))"
        by (simp add: F_def split: if_splits)
      from e Some have listed: "listedDir fs b (name e)"
        by (auto simp: listedDir_iff)
      show "\<exists>rest. p = b @ rest \<and> reported fs b rest \<and> d + int (length rest) \<le> D + 1"
      proof (cases "isGitRepo fs (b @ [name e])")
        case True
        with p listed e shallow have "p = b @ [name e] \<and> reported fs b [name e]
            \<and> d + int (length [name e]) \<le> D + 1" by simp
        then show ?thesis by blast
      next
        case False
        with p have "p \<in> set (fst (findGitRepos_traced fs (b @ [name e]) D (d + 1)))"
          by simp
        then have "\<exists>rest. p = (b @ [name e]) @ rest \<and> reported fs (b @ [name e]) rest
            \<and> d + 1 + int (length rest) \<le> D + 1"
          by (simp only: IH[of p "b @ [name e]"])
        then obtain rest where rest: "p = (b @ [name e]) @ rest"
          "reported fs (b @ [name e]) rest" "d + 1 + int (length rest) \<le> D + 1"
          by (elim exE conjE)
        from rest(2) obtain m rest' where "rest = m # rest'"
          by (cases rest) auto
        with rest False listed e have "p = b @ (name e # rest) \<and> reported fs b (name e # rest)
            \<and> d + int (length (name e # rest)) \<le> D + 1" by simp
        then show ?thesis by blast
      qed
    next
      assume "\<exists>rest. p = b @ rest \<and> reported fs b rest \<and> d + int (length rest) \<le> D + 1"
      then obtain rest where rest: "p = b @ rest" "reported fs b rest"
        "d + int (length rest) \<le> D + 1" by blast
      from rest(2) obtain n rest' where n: "rest = n # rest'" "listedDir fs b n" "\<not> skipped n"
        and tail: "if rest' = [] then isGitRepo fs (b @ [n])
                   else \<not> isGitRepo fs (b @ [n]) \<and> reported fs (b @ [n]) rest'"
        by (subst (asm) reported_unfold) blast
      from n(2) Some obtain e where e: "e \<in> set es" "isDirectory e" "name e = n"
        by (auto simp: listedDir_iff)
      have "p \<in> set (if isGitRepo fs (b @ [n]) then [b @ [n]]
                      else fst (findGitRepos_traced fs (b @ [n]) D (d + 1)))"
      proof (cases "rest' = []")
        case True
        with tail rest n show ?thesis by simp
      next
        case False
        with tail have ng: "\<not> isGitRepo fs (b @ [n])" and rep: "reported fs (b @ [n]) rest'"
          by simp_all
        from rest n have "p = (b @ [n]) @ rest' \<and> d + 1 + int (length rest') \<le> D + 1" by simp
        with rep have "\<exists>rest. p = (b @ [n]) @ rest \<and> reported fs (b @ [n]) rest
            \<and> d + 1 + int (length rest) \<le> D + 1"
          by (intro exI[of _ rest']) simp
        then have "p \<in> set (fst (findGitRepos_traced fs (b @ [n]) D (d + 1)))"
          by (simp only: IH[of p "b @ [n]"])
        with ng show ?thesis by simp
      qed
      with e n(3) have "p \<in> set (F e)"
        by (simp add: F_def split: if_splits)
      with e(1) have "p \<in> set (concat (map F es))"
        by auto
      then show "p \<in> set (fst (findGitRepos_traced fs b D d))"
        by (simp only: traced_fst_step[OF shallow Some] F_def)
    qed
  qed
qed

lemma reported_not_skipped: "reported fs b rest \<Longrightarrow> n \<in> set rest \<Longrightarrow> \<not> skipped n"
  by (induction fs b rest rule: reported.induct) auto

lemma reported_marker: "reported fs b rest \<Longrightarrow> isGitRepo fs (b @ rest)"
  by (induction fs b rest rule: reported.induct) auto

lemma reported_dirChain: "reported fs b rest \<Longrightarrow> dirChain fs b rest"
  by (induction fs b rest rule: reported.induct) auto

lemma reported_repoBelow: "reported fs b rest \<Longrightarrow> repoBelow fs b rest"
  by (simp add: repoBelow_def reported_nonempty reported_marker reported_dirChain)

lemma reported_prefix_eq:
  "reported fs b r1 \<Longrightarrow> reported fs b r2 \<Longrightarrow> prefix r1 r2 \<Longrightarrow> r1 = r2"
proof (induction fs b r1 arbitrary: r2 rule: reported.induct)
  case (1 fs b)
  then show ?case by simp
next
  case (2 fs b n)
  from "2.prems"(3) obtain r2' where r2: "r2 = n # r2'" by (auto simp: prefix_def)
  show ?case
  proof (cases r2')
    case Nil
    with r2 show ?thesis by simp
  next
    case (Cons m ms)
    with r2 "2.prems"(1,2) show ?thesis by simp
  qed
next
  case (3 fs b n m rest)
  from "3.prems"(3) obtain r2' where r2: "r2 = n # r2'" and pre: "prefix (m # rest) r2'"
    by (cases r2) auto
  from pre obtain k ks where r2': "r2' = k # ks" by (cases r2') auto
  from "3.prems"(1) have a: "reported fs (b @ [n]) (m # rest)" by simp
  from "3.prems"(2) r2 r2' have c: "reported fs (b @ [n]) r2'" by simp
  from "3.IH"[OF a c pre] r2 show ?case by simp
qed

lemma distinct_concat_keyed:
  assumes "distinct (map g es)"
    and "\<And>e. e \<in> set es \<Longrightarrow> distinct (f e)"
    and "\<And>e x. e \<in> set es \<Longrightarrow> x \<in> set (f e) \<Longrightarrow> k x = g e"
  shows "distinct (concat (map f es))"
  using assms
proof (induction es)
  case Nil
  then show ?case by simp
next
  case (Cons a es)
  have tail: "distinct (concat (map f es))"
    using Cons by simp
  have head: "distinct (f a)" using Cons.prems(2) by simp
  have disj: "set (f a) \<inter> set (concat (map f es)) = {}"
  proof (rule ccontr)
    assume "set (f a) \<inter> set (concat (map f es)) \<noteq> {}"
    then obtain x e where x: "x \<in> set (f a)" and e: "e \<in> set es" "x \<in> set (f e)"
      by auto
    from x have "k x = g a" using Cons.prems(3) by simp
    moreover from e have "k x = g e" using Cons.prems(3) by simp
    ultimately have "g a = g e" by simp
    with e(1) have "g a \<in> g ` set es" by (rule_tac image_eqI)
    with Cons.prems(1) show False by simp
  qed
  from head tail disj show ?case by simp
qed

lemma traced_repos_distinct:
  assumes wf: "\<And>q es. readdirSync fs q = Some es \<Longrightarrow> distinct (map name es)"
  shows "distinct (fst (findGitRepos_traced fs b D d))"
proof (induction "nat (D + 1 - d)" arbitrary: b d)
  case 0
  then have "D < d" by simp
  then show ?case by (simp add: traced_too_deep)
next
  case (Suc k)
  then have shallow: "\<not> D < d" and k: "k = nat (D + 1 - (d + 1))" by simp_all
  show ?case
  proof (cases "readdirSync fs b")
    case None
    with shallow show ?thesis by (simp add: traced_unreadable)
  next
    case (Some es)
    note IH = Suc.hyps(1)[OF k]
    define F where "F = (\<lambda>e. if isDirectory e \<and> \<not> skipped (name e)
                       then (if isGitRepo fs (b @ [name e]) then [b @ [name e]]
                             else fst (findGitRepos_traced fs (b @ [name e]) D (d + 1)))
                       else [])"
    have d1: "distinct (F e)" for e
      by (simp add: F_def IH[of "b @ [name e]"])
    have key: "x ! length b = name e" if "x \<in> set (F e)" for e x
    proof (cases "isGitRepo fs (b @ [name e])")
      case True
      with that have "x = b @ [name e]" by (simp add: F_def split: if_splits)
      then show ?thesis by simp
    next
      case False
      with that have "x \<in> set (fst (findGitRepos_traced fs (b @ [name e]) D (d + 1)))"
        by (simp add: F_def split: if_splits)
      then obtain rest where "x = (b @ [name e]) @ rest"
        unfolding traced_repos_iff by (elim exE conjE)
      then show ?thesis by (simp add: nth_append)
    qed
    have "distinct (concat (map F es))"
      by (rule distinct_concat_keyed[where g = name and k = "\<lambda>x. x ! length b"])
         (simp_all add: wf[OF Some] d1 key)
    then show ?thesis
      by (simp only: traced_fst_step[OF shallow Some] F_def)
  qed
qed

lemma traced_calls_shape:
  "c \<in> set (snd (findGitRepos_traced fs b D d)) \<Longrightarrow>
     (\<exists>rest. c = ReaddirCall (b @ rest) \<and> (\<forall>n \<in> set rest. \<not> skipped n)
        \<and> (rest \<noteq> [] \<longrightarrow> \<not> isGitRepo fs (b @ rest)))
     \<or> (\<exists>rest. rest \<noteq> [] \<and> c = ExistsCall (b @ rest @ [''.git''])
        \<and> (\<forall>n \<in> set rest. \<not> skipped n))"
proof (induction "nat (D + 1 - d)" arbitrary: b d)
  case 0
  then have "D < d" by simp
  with 0 show ?case by (simp add: traced_too_deep)
next
  case (Suc k)
  then have shallow: "\<not> D < d" and k: "k = nat (D + 1 - (d + 1))" by simp_all
  have root: ?case if "c = ReaddirCall b"
  proof -
    from that have "c = ReaddirCall (b @ []) \<and> (\<forall>n \<in> set ([]::string list). \<not> skipped n)
        \<and> (([]::string list) \<noteq> [] \<longrightarrow> \<not> isGitRepo fs (b @ []))" by simp
    then show ?thesis by blast
  qed
  show ?case
  proof (cases "readdirSync fs b")
    case None
    with shallow Suc.prems have "c = ReaddirCall b" by (simp add: traced_unreadable)
    then show ?thesis by (rule root)
  next
    case (Some es)
    note IH = Suc.hyps(1)[OF k]
    define G where "G = (\<lambda>e. if isDirectory e \<and> \<not> skipped (name e)
                       then ExistsCall (b @ [name e] @ [''.git'']) #
                            (if isGitRepo fs (b @ [name e]) then []
                             else snd (findGitRepos_traced fs (b @ [name e]) D (d + 1)))
                       else [])"
    from Suc.prems have "c \<in> set (ReaddirCall b # concat (map G es))"
      by (simp only: traced_snd_step[OF shallow Some] G_def)
    then consider "c = ReaddirCall b" | e where "e \<in> set es" "c \<in> set (G e)"
      by auto
    then show ?thesis
    proof cases
      case 1
      then show ?thesis by (rule root)
    next
      case 2
      from 2(2) have ok: "\<not> skipped (name e)"
        by (auto simp: G_def split: if_splits)
      from 2(2) consider "c = ExistsCall (b @ [name e] @ [''.git''])"
        | "\<not> isGitRepo fs (b @ [name e])"
          "c \<in> set (snd (findGitRepos_traced fs (b @ [name e]) D (d + 1)))"
        by (auto simp: G_def split: if_splits)
      then show ?thesis
      proof cases
        case 1
        with ok have "[name e] \<noteq> [] \<and> c = ExistsCall (b @ [name e] @ [''.git''])
            \<and> (\<forall>n \<in> set [name e]. \<not> skipped n)" by simp
        then show ?thesis by blast
      next
        case 2
        from IH[OF 2(2)] show ?thesis
        proof (elim disjE exE conjE)
          fix rest
          assume c: "c = ReaddirCall ((b @ [name e]) @ rest)"
            and ns: "\<forall>n \<in> set rest. \<not> skipped n"
            and ng: "rest \<noteq> [] \<longrightarrow> \<not> isGitRepo fs ((b @ [name e]) @ rest)"
          from ng 2(1) have "\<not> isGitRepo fs (b @ (name e # rest))"
            by (cases "rest = []") simp_all
          with c ns ok have "c = ReaddirCall (b @ (name e # rest))
              \<and> (\<forall>n \<in> set (name e # rest). \<not> skipped n)
              \<and> (name e # rest \<noteq> [] \<longrightarrow> \<not> isGitRepo fs (b @ (name e # rest)))" by simp
          then show ?thesis by blast
        next
          fix rest
          assume "rest \<noteq> []" and c: "c = ExistsCall ((b @ [name e]) @ rest @ [''.git''])"
            and ns: "\<forall>n \<in> set rest. \<not> skipped n"
          with ok have "name e # rest \<noteq> [] \<and> c = ExistsCall (b @ (name e # rest) @ [''.git''])
              \<and> (\<forall>n \<in> set (name e # rest). \<not> skipped n)" by simp
          then show ?thesis by blast
        qed
      qed
    qed
  qed
qed

text \<open>A directory that is listed lies at most \<open>maxDepth\<close> levels below the start.\<close>

lemma traced_listing_depth:
  "ReaddirCall q \<in> set (snd (findGitRepos_traced fs b D d)) \<Longrightarrow>
     \<exists>rest. q = b @ rest \<and> d + int (length rest) \<le> D"
proof (induction "nat (D + 1 - d)" arbitrary: b d)
  case 0
  then have "D < d" by simp
  with 0 show ?case by (simp add: traced_too_deep)
next
  case (Suc k)
  then have shallow: "\<not> D < d" and k: "k = nat (D + 1 - (d + 1))" by simp_all
  have root: ?case if "q = b"
  proof -
    from that shallow have "q = b @ [] \<and> d + int (length ([]::string list)) \<le> D" by simp
    then show ?thesis by blast
  qed
  show ?case
  proof (cases "readdirSync fs b")
    case None
    with shallow Suc.prems have "q = b" by (simp add: traced_unreadable)
    then show ?thesis by (rule root)
  next
    case (Some es)
    note IH = Suc.hyps(1)[OF k]
    define G where "G = (\<lambda>e. if isDirectory e \<and> \<not> skipped (name e)
                       then ExistsCall (b @ [name e] @ [''.git'']) #
                            (if isGitRepo fs (b @ [name e]) then []
                             else snd (findGitRepos_traced fs (b @ [name e]) D (d + 1)))
                       else [])"
    from Suc.prems have "ReaddirCall q \<in> set (ReaddirCall b # concat (map G es))"
      by (simp only: traced_snd_step[OF shallow Some] G_def)
    then consider "q = b" | e where "e \<in> set es" "ReaddirCall q \<in> set (G e)"
      by auto
    then show ?thesis
    proof cases
      case 1
      then show ?thesis by (rule root)
    next
      case 2
      from 2(2) have "ReaddirCall q \<in> set (snd (findGitRepos_traced fs (b @ [name e]) D (d + 1)))"
        by (simp add: G_def split: if_splits)
      from IH[OF this] obtain rest where "q = (b @ [name e]) @ rest"
        "d + 1 + int (length rest) \<le> D"
        by (elim exE conjE)
      then have "q = b @ (name e # rest) \<and> d + int (length (name e # rest)) \<le> D" by simp
      then show ?thesis by blast
    qed
  qed
qed


lemmas demo_fs_defs = demoFs_def demoListing_def demoExists_def isGitRepo_def skipped_def
  startsWith_def listedDir_def repoBelow_def

lemmas walk_eval = findGitRepos_def findGitRepos_calls_def findGitRepos_traced.simps

subsection \<open>The claims about the tree walker\<close>

text \<open>
  Claim C1 as stated fails. With \<open>maxDepth = 0\<close> the walk of the demo tree returns
  \<^verbatim>\<open>/home/app\<close>, a repository one level below the scan root: the guard compares the
  depth of the directory being listed, and the repositories found in it lie one level
  further down. With \<open>maxDepth = 2\<close> the repository \<^verbatim>\<open>/home/app/sub\<close> exists two levels
  down, yet the walk returns no repository of that depth: it is hidden inside the
  repository \<^verbatim>\<open>/home/app\<close>.
\<close>

theorem walk_depth_counterexample:
  "findGitRepos demoFs [''home''] 0 0 = [[''home'', ''app'']]
   \<and> repoBelow demoFs [''home''] [''app'']
   \<and> \<not> int (length [''app'']) \<le> 0
   \<and> repoBelow demoFs [''home''] [''app'', ''sub'']
   \<and> int (length [''app'', ''sub'']) = 2
   \<and> findGitRepos demoFs [''home''] 2 0 = [[''home'', ''app''], [''home'', ''work'', ''svc'', ''api'']]"
  by (simp add: walk_eval demo_fs_defs)

text \<open>
  Claim C1, amended. The walk from a scan root with \<open>maxDepth = D\<close> (starting at depth 0)
  returns exactly the directories \<open>root/n\<^sub>1/.../n\<^sub>k\<close> such that \<open>1 \<le> k \<le> D + 1\<close>, every
  \<open>n\<^sub>i\<close> is a directory entry of a successful listing of its parent and is not pruned,
  the last directory holds the repository marker and none of the directories before it
  does. So every repository returned lies between one and \<open>D + 1\<close> levels below the
  scan root, and a repository at any depth up to \<open>D + 1\<close> is returned whenever it is
  reachable in this way. The directories that are listed lie at most \<open>D\<close> levels below
  the scan root: the recursion stops once the current depth exceeds \<open>maxDepth\<close>.
\<close>

theorem walk_depth_characterisation:
  "(\<forall>p \<in> set (findGitRepos fs root D 0).
      \<exists>rest. p = root @ rest \<and> reported fs root rest \<and> repoBelow fs root rest
        \<and> 1 \<le> int (length rest) \<and> int (length rest) \<le> D + 1)
   \<and> (\<forall>rest. reported fs root rest \<and> int (length rest) \<le> D + 1
        \<longrightarrow> root @ rest \<in> set (findGitRepos fs root D 0))
   \<and> (\<forall>q. ReaddirCall q \<in> set (findGitRepos_calls fs root D 0)
        \<longrightarrow> (\<exists>rest. q = root @ rest \<and> int (length rest) \<le> D))"
proof (intro conjI ballI allI impI)
  fix p
  assume "p \<in> set (findGitRepos fs root D 0)"
  then obtain rest where rest: "p = root @ rest" "reported fs root rest"
    "0 + int (length rest) \<le> D + 1"
    unfolding findGitRepos_def traced_repos_iff by (elim exE conjE)
  from rest(2) have "rest \<noteq> []" by (rule reported_nonempty)
  then have "1 \<le> int (length rest)" by (cases rest) simp_all
  with rest reported_repoBelow[OF rest(2)]
  show "\<exists>rest. p = root @ rest \<and> reported fs root rest \<and> repoBelow fs root rest
        \<and> 1 \<le> int (length rest) \<and> int (length rest) \<le> D + 1"
    by (intro exI[of _ rest]) simp
next
  fix rest
  assume "reported fs root rest \<and> int (length rest) \<le> D + 1"
  then have "\<exists>r. root @ rest = root @ r \<and> reported fs root r \<and> 0 + int (length r) \<le> D + 1"
    by (intro exI[of _ rest]) simp
  then show "root @ rest \<in> set (findGitRepos fs root D 0)"
    unfolding findGitRepos_def traced_repos_iff .
next
  fix q
  assume "ReaddirCall q \<in> set (findGitRepos_calls fs root D 0)"
  then have "ReaddirCall q \<in> set (snd (findGitRepos_traced fs root D 0))"
    by (simp add: findGitRepos_calls_def)
  from traced_listing_depth[OF this]
  show "\<exists>rest. q = root @ rest \<and> int (length rest) \<le> D" by simp
qed

text \<open>
  On the demo tree: \<^verbatim>\<open>work/svc/api\<close>, three levels down, is returned for \<open>maxDepth = 2\<close>
  and not for \<open>maxDepth = 1\<close>, where \<^verbatim>\<open>work\<close> is listed and \<^verbatim>\<open>work/svc\<close> is not.
\<close>

theorem walk_depth_characterisation_witness:
  "reported demoFs [''home''] [''work'', ''svc'', ''api'']
   \<and> int (length [''work'', ''svc'', ''api'']) \<le> 2 + 1
   \<and> [''home''] @ [''work'', ''svc'', ''api''] \<in> set (findGitRepos demoFs [''home''] 2 0)
   \<and> findGitRepos demoFs [''home''] 1 0 = [[''home'', ''app'']]
   \<and> ReaddirCall [''home'', ''work''] \<in> set (findGitRepos_calls demoFs [''home''] 1 0)
   \<and> ReaddirCall [''home'', ''work'', ''svc''] \<notin> set (findGitRepos_calls demoFs [''home''] 1 0)"
proof -
  have r: "reported demoFs [''home''] [''work'', ''svc'', ''api'']
     \<and> int (length [''work'', ''svc'', ''api'']) \<le> 2 + 1"
    by (simp add: demo_fs_defs)
  have e: "findGitRepos demoFs [''home''] 1 0 = [[''home'', ''app'']]"
    by (simp add: walk_eval demo_fs_defs)
  have l: "ReaddirCall [''home'', ''work''] \<in> set (findGitRepos_calls demoFs [''home''] 1 0)"
    by (simp add: walk_eval demo_fs_defs)
  note t = walk_depth_characterisation[of demoFs "[''home'']" 2]
  from mp[OF spec[OF conjunct1[OF conjunct2[OF t]]] r]
  have m: "[''home''] @ [''work'', ''svc'', ''api''] \<in> set (findGitRepos demoFs [''home''] 2 0)" .
  note u = walk_depth_characterisation[of demoFs "[''home'']" 1]
  have n: "ReaddirCall [''home'', ''work'', ''svc''] \<notin> set (findGitRepos_calls demoFs [''home''] 1 0)"
  proof
    assume "ReaddirCall [''home'', ''work'', ''svc''] \<in> set (findGitRepos_calls demoFs [''home''] 1 0)"
    from mp[OF spec[OF conjunct2[OF conjunct2[OF u]]] this]
    obtain rest where eq: "[''home'', ''work'', ''svc''] = [''home''] @ rest"
      and le: "int (length rest) \<le> 1"
      by (elim exE conjE)
    from eq have "rest = [''work'', ''svc'']" by simp
    with le show False by simp
  qed
  from r m e l n show ?thesis by simp
qed

text \<open>
  Claim C4. On a file system whose listings name no entry twice, the result of
  \<^verbatim>\<open>findGitRepos\<close> has no path twice and no two paths of which one is a path prefix of
  the other; and a directory that is returned is never listed, so nothing inside a
  repository is looked at.
\<close>

theorem no_nested_repositories:
  assumes "distinctListings fs"
  shows "distinct (findGitRepos fs root D d)
    \<and> (\<forall>p \<in> set (findGitRepos fs root D d). \<forall>q \<in> set (findGitRepos fs root D d).
          prefix p q \<longrightarrow> p = q)
    \<and> (\<forall>p \<in> set (findGitRepos fs root D d). ReaddirCall p \<notin> set (findGitRepos_calls fs root D d))"
proof (intro conjI ballI impI)
  from assms show "distinct (findGitRepos fs root D d)"
    unfolding findGitRepos_def by (intro traced_repos_distinct) (simp add: distinctListings_def)
next
  fix p q
  assume "p \<in> set (findGitRepos fs root D d)" and "q \<in> set (findGitRepos fs root D d)"
    and pq: "prefix p q"
  then obtain r1 r2 where r: "p = root @ r1" "reported fs root r1" "q = root @ r2" "reported fs root r2"
    unfolding findGitRepos_def traced_repos_iff by (elim exE conjE)
  from pq r(1,3) have "prefix r1 r2" by simp
  with r(2,4) have "r1 = r2" by (intro reported_prefix_eq)
  with r show "p = q" by simp
next
  fix p
  assume "p \<in> set (findGitRepos fs root D d)"
  then obtain r1 where r: "p = root @ r1" "reported fs root r1"
    unfolding findGitRepos_def traced_repos_iff by (elim exE conjE)
  from r(2) have ne: "r1 \<noteq> []" and git: "isGitRepo fs (root @ r1)"
    by (simp_all add: reported_nonempty reported_marker)
  show "ReaddirCall p \<notin> set (findGitRepos_calls fs root D d)"
  proof
    assume "ReaddirCall p \<in> set (findGitRepos_calls fs root D d)"
    then have "ReaddirCall p \<in> set (snd (findGitRepos_traced fs root D d))"
      by (simp add: findGitRepos_calls_def)
    from traced_calls_shape[OF this]
    obtain rest where "p = root @ rest" "rest \<noteq> [] \<longrightarrow> \<not> isGitRepo fs (root @ rest)"
      by auto
    with r(1) ne git show False by simp
  qed
qed

text \<open>
  On the demo tree: \<^verbatim>\<open>app/sub\<close> holds the marker and lies inside the repository
  \<^verbatim>\<open>app\<close>; only \<^verbatim>\<open>app\<close> is returned, and \<^verbatim>\<open>app\<close> is never listed.
\<close>

theorem no_nested_repositories_witness:
  "distinctListings demoFs
   \<and> isGitRepo demoFs [''home'', ''app'', ''sub'']
   \<and> [''home'', ''app''] \<in> set (findGitRepos demoFs [''home''] 3 0)
   \<and> [''home'', ''app'', ''sub''] \<notin> set (findGitRepos demoFs [''home''] 3 0)
   \<and> distinct (findGitRepos demoFs [''home''] 3 0)
   \<and> ReaddirCall [''home'', ''app''] \<notin> set (findGitRepos_calls demoFs [''home''] 3 0)"
proof -
  have wf: "distinctListings demoFs"
    by (auto simp: distinctListings_def demoFs_def demoListing_def split: if_splits)
  have m: "[''home'', ''app''] \<in> set (findGitRepos demoFs [''home''] 3 0)"
    by (simp add: walk_eval demo_fs_defs)
  have g: "isGitRepo demoFs [''home'', ''app'', ''sub'']"
    by (simp add: demo_fs_defs)
  note t = no_nested_repositories[OF wf, of "[''home'']" 3 0]
  have n: "[''home'', ''app'', ''sub''] \<notin> set (findGitRepos demoFs [''home''] 3 0)"
  proof
    assume "[''home'', ''app'', ''sub''] \<in> set (findGitRepos demoFs [''home''] 3 0)"
    with t m have "prefix [''home'', ''app''] [''home'', ''app'', ''sub'']
       \<longrightarrow> [''home'', ''app''] = [''home'', ''app'', ''sub'']" by blast
    then show False by simp
  qed
  from t m have "ReaddirCall [''home'', ''app''] \<notin> set (findGitRepos_calls demoFs [''home''] 3 0)"
    by blast
  with t wf g m n show ?thesis by simp
qed

text \<open>
  Claim C5. No component below the scan root of a returned path, of a listed directory
  or of a directory tested for the marker begins with a dot or is named
  \<^verbatim>\<open>node_modules\<close>, \<^verbatim>\<open>vendor\<close> or \<^verbatim>\<open>__pycache__\<close>: such a directory is neither returned, nor
  tested, nor descended into, whatever it contains.
\<close>

theorem pruned_directories_invisible:
  "(\<forall>p \<in> set (findGitRepos fs root D d).
      \<exists>rest. p = root @ rest \<and>
        (\<forall>n \<in> set rest. \<not> startsWith n ''.'' \<and> n \<noteq> ''node_modules'' \<and> n \<noteq> ''vendor''
           \<and> n \<noteq> ''__pycache__''))
   \<and> (\<forall>q. ReaddirCall q \<in> set (findGitRepos_calls fs root D d) \<longrightarrow>
        (\<exists>rest. q = root @ rest \<and>
          (\<forall>n \<in> set rest. \<not> startsWith n ''.'' \<and> n \<noteq> ''node_modules'' \<and> n \<noteq> ''vendor''
             \<and> n \<noteq> ''__pycache__'')))
   \<and> (\<forall>q. ExistsCall q \<in> set (findGitRepos_calls fs root D d) \<longrightarrow>
        (\<exists>rest. q = root @ rest @ [''.git''] \<and> rest \<noteq> [] \<and>
          (\<forall>n \<in> set rest. \<not> startsWith n ''.'' \<and> n \<noteq> ''node_modules'' \<and> n \<noteq> ''vendor''
             \<and> n \<noteq> ''__pycache__'')))"
proof (intro conjI ballI allI impI)
  fix p
  assume "p \<in> set (findGitRepos fs root D d)"
  then obtain rest where rest: "p = root @ rest" "reported fs root rest"
    unfolding findGitRepos_def traced_repos_iff by (elim exE conjE)
  from rest(2) have "\<forall>n \<in> set rest. \<not> skipped n"
    by (blast dest: reported_not_skipped)
  with rest(1) show "\<exists>rest. p = root @ rest \<and>
        (\<forall>n \<in> set rest. \<not> startsWith n ''.'' \<and> n \<noteq> ''node_modules'' \<and> n \<noteq> ''vendor''
           \<and> n \<noteq> ''__pycache__'')"
    by (intro exI[of _ rest]) (simp add: skipped_def)
next
  fix q
  assume "ReaddirCall q \<in> set (findGitRepos_calls fs root D d)"
  then have "ReaddirCall q \<in> set (snd (findGitRepos_traced fs root D d))"
    by (simp add: findGitRepos_calls_def)
  from traced_calls_shape[OF this]
  obtain rest where "q = root @ rest" "\<forall>n \<in> set rest. \<not> skipped n"
    by auto
  then show "\<exists>rest. q = root @ rest \<and>
          (\<forall>n \<in> set rest. \<not> startsWith n ''.'' \<and> n \<noteq> ''node_modules'' \<and> n \<noteq> ''vendor''
             \<and> n \<noteq> ''__pycache__'')"
    by (intro exI[of _ rest]) (simp add: skipped_def)
next
  fix q
  assume "ExistsCall q \<in> set (findGitRepos_calls fs root D d)"
  then have "ExistsCall q \<in> set (snd (findGitRepos_traced fs root D d))"
    by (simp add: findGitRepos_calls_def)
  from traced_calls_shape[OF this]
  obtain rest where "q = root @ rest @ [''.git'']" "rest \<noteq> []" "\<forall>n \<in> set rest. \<not> skipped n"
    by auto
  then show "\<exists>rest. q = root @ rest @ [''.git''] \<and> rest \<noteq> [] \<and>
          (\<forall>n \<in> set rest. \<not> startsWith n ''.'' \<and> n \<noteq> ''node_modules'' \<and> n \<noteq> ''vendor''
             \<and> n \<noteq> ''__pycache__'')"
    by (intro exI[of _ rest]) (simp add: skipped_def)
qed

text \<open>
  On the demo tree: \<^verbatim>\<open>.cache\<close> and \<^verbatim>\<open>node_modules/pkg\<close> hold the marker and are not
  returned; \<^verbatim>\<open>node_modules\<close> is not listed and \<^verbatim>\<open>.cache\<close> is not tested.
\<close>

theorem pruned_directories_invisible_witness:
  "isGitRepo demoFs [''home'', ''.cache'']
   \<and> isGitRepo demoFs [''home'', ''node_modules'', ''pkg'']
   \<and> [''home'', ''.cache''] \<notin> set (findGitRepos demoFs [''home''] 3 0)
   \<and> [''home'', ''node_modules'', ''pkg''] \<notin> set (findGitRepos demoFs [''home''] 3 0)
   \<and> ReaddirCall [''home'', ''node_modules''] \<notin> set (findGitRepos_calls demoFs [''home''] 3 0)
   \<and> ExistsCall [''home'', ''.cache'', ''.git''] \<notin> set (findGitRepos_calls demoFs [''home''] 3 0)"
proof -
  note t = pruned_directories_invisible[of demoFs "[''home'']" 3 0]
  note t1 = conjunct1[OF t]
  note t2 = conjunct1[OF conjunct2[OF t]]
  note t3 = conjunct2[OF conjunct2[OF t]]
  have g: "isGitRepo demoFs [''home'', ''.cache'']"
    "isGitRepo demoFs [''home'', ''node_modules'', ''pkg'']"
    by (simp_all add: demo_fs_defs)
  have a: "[''home'', ''.cache''] \<notin> set (findGitRepos demoFs [''home''] 3 0)"
  proof
    assume "[''home'', ''.cache''] \<in> set (findGitRepos demoFs [''home''] 3 0)"
    from bspec[OF t1 this] obtain rest where eq: "[''home'', ''.cache''] = [''home''] @ rest"
      and ns: "\<forall>n \<in> set rest. \<not> startsWith n ''.'' \<and> n \<noteq> ''node_modules''
                 \<and> n \<noteq> ''vendor'' \<and> n \<noteq> ''__pycache__''"
      by (elim exE conjE)
    from eq have "rest = [''.cache'']" by simp
    with ns show False by (simp add: startsWith_def)
  qed
  have b: "[''home'', ''node_modules'', ''pkg''] \<notin> set (findGitRepos demoFs [''home''] 3 0)"
  proof
    assume "[''home'', ''node_modules'', ''pkg''] \<in> set (findGitRepos demoFs [''home''] 3 0)"
    from bspec[OF t1 this] obtain rest
      where eq: "[''home'', ''node_modules'', ''pkg''] = [''home''] @ rest"
      and ns: "\<forall>n \<in> set rest. \<not> startsWith n ''.'' \<and> n \<noteq> ''node_modules''
                 \<and> n \<noteq> ''vendor'' \<and> n \<noteq> ''__pycache__''"
      by (elim exE conjE)
    from eq have "rest = [''node_modules'', ''pkg'']" by simp
    with ns show False by simp
  qed
  have c: "ReaddirCall [''home'', ''node_modules''] \<notin> set (findGitRepos_calls demoFs [''home''] 3 0)"
  proof
    assume "ReaddirCall [''home'', ''node_modules''] \<in> set (findGitRepos_calls demoFs [''home''] 3 0)"
    from mp[OF spec[OF t2] this] obtain rest
      where eq: "[''home'', ''node_modules''] = [''home''] @ rest"
      and ns: "\<forall>n \<in> set rest. \<not> startsWith n ''.'' \<and> n \<noteq> ''node_modules''
                 \<and> n \<noteq> ''vendor'' \<and> n \<noteq> ''__pycache__''"
      by (elim exE conjE)
    from eq have "rest = [''node_modules'']" by simp
    with ns show False by simp
  qed
  have d: "ExistsCall [''home'', ''.cache'', ''.git''] \<notin> set (findGitRepos_calls demoFs [''home''] 3 0)"
  proof
    assume "ExistsCall [''home'', ''.cache'', ''.git''] \<in> set (findGitRepos_calls demoFs [''home''] 3 0)"
    from mp[OF spec[OF t3] this] obtain rest
      where eq: "[''home'', ''.cache'', ''.git''] = [''home''] @ rest @ [''.git'']"
      and ns: "\<forall>n \<in> set rest. \<not> startsWith n ''.'' \<and> n \<noteq> ''node_modules''
                 \<and> n \<noteq> ''vendor'' \<and> n \<noteq> ''__pycache__''"
      by (elim exE conjE)
    from eq have "[''.cache''] @ [''.git''] = rest @ [''.git'']" by simp
    then have "rest = [''.cache'']" by (simp only: append_same_eq)
    with ns show False by (simp add: startsWith_def)
  qed
  from g a b c d show ?thesis by simp
qed

text \<open>
  Claim C10. The scan root is not in the result and is never tested for the marker;
  every returned path is a strict extension of the scan root.
\<close>

theorem scan_root_never_reported:
  "root \<notin> set (findGitRepos fs root D d)
   \<and> ExistsCall (root @ [''.git'']) \<notin> set (findGitRepos_calls fs root D d)
   \<and> (\<forall>p \<in> set (findGitRepos fs root D d). strict_prefix root p)"
proof (intro conjI ballI)
  show "root \<notin> set (findGitRepos fs root D d)"
  proof
    assume "root \<in> set (findGitRepos fs root D d)"
    then obtain rest where "root = root @ rest" "reported fs root rest"
      unfolding findGitRepos_def traced_repos_iff by (elim exE conjE)
    then show False by (simp add: reported_nonempty)
  qed
next
  show "ExistsCall (root @ [''.git'']) \<notin> set (findGitRepos_calls fs root D d)"
  proof
    assume "ExistsCall (root @ [''.git'']) \<in> set (findGitRepos_calls fs root D d)"
    then have "ExistsCall (root @ [''.git'']) \<in> set (snd (findGitRepos_traced fs root D d))"
      by (simp add: findGitRepos_calls_def)
    from traced_calls_shape[OF this]
    obtain rest where "root @ [''.git''] = root @ rest @ [''.git'']" "rest \<noteq> []"
      by auto
    then show False by simp
  qed
next
  fix p
  assume "p \<in> set (findGitRepos fs root D d)"
  then obtain rest where "p = root @ rest" "reported fs root rest"
    unfolding findGitRepos_def traced_repos_iff by (elim exE conjE)
  then show "strict_prefix root p"
    by (cases rest) (simp_all add: strict_prefix_def)
qed

text \<open>
  On the demo tree the scan root \<^verbatim>\<open>/home\<close> holds the marker itself and is not returned.
\<close>

theorem scan_root_never_reported_witness:
  "isGitRepo demoFs [''home'']
   \<and> [''home''] \<notin> set (findGitRepos demoFs [''home''] 3 0)
   \<and> ExistsCall ([''home''] @ [''.git'']) \<notin> set (findGitRepos_calls demoFs [''home''] 3 0)
   \<and> [''home'', ''app''] \<in> set (findGitRepos demoFs [''home''] 3 0)
   \<and> strict_prefix [''home''] [''home'', ''app'']"
proof -
  note t = scan_root_never_reported[of "[''home'']" demoFs 3 0]
  have g: "isGitRepo demoFs [''home'']" by (simp add: demo_fs_defs)
  have m: "[''home'', ''app''] \<in> set (findGitRepos demoFs [''home''] 3 0)"
    by (simp add: walk_eval demo_fs_defs)
  with t have "strict_prefix [''home''] [''home'', ''app'']" by blast
  with t g m show ?thesis by simp
qed

subsection \<open>The claims about the status collector and the classifier\<close>

lemmas status_eval = getGitStatus_def nonBlankLines_def newline_def trim_def isWhiteSpace_def
  isStaged_def isModified_def isUntracked_def isConflict_def startsWith_def orDefault_def
  parseInt_def isDigit_def digitValue_def

text \<open>
  Claim C7. The status text made of the four lines \<^verbatim>\<open>M  file1.txt\<close>, \<^verbatim>\<open> M file2.txt\<close>,
  \<^verbatim>\<open>?? file3.txt\<close> and \<^verbatim>\<open>UU file4.txt\<close> splits into these four lines, and the classifier
  counts one staged, one modified, one untracked and one conflicted line, also when the
  text comes through \<^verbatim>\<open>getGitStatus\<close>.
\<close>

theorem classifier_example:
  "nonBlankLines (''M  file1.txt'' @ [newline] @ '' M file2.txt'' @ [newline]
                  @ ''?? file3.txt'' @ [newline] @ ''UU file4.txt'' @ [newline])
     = [''M  file1.txt'', '' M file2.txt'', ''?? file3.txt'', ''UU file4.txt'']
   \<and> length (filter isStaged [''M  file1.txt'', '' M file2.txt'', ''?? file3.txt'', ''UU file4.txt'']) = 1
   \<and> length (filter isModified [''M  file1.txt'', '' M file2.txt'', ''?? file3.txt'', ''UU file4.txt'']) = 1
   \<and> length (filter isUntracked [''M  file1.txt'', '' M file2.txt'', ''?? file3.txt'', ''UU file4.txt'']) = 1
   \<and> length (filter isConflict [''M  file1.txt'', '' M file2.txt'', ''?? file3.txt'', ''UU file4.txt'']) = 1
   \<and> getGitStatus demoExec [''home'', ''app'']
       = Status \<lparr> branch = ''main'', staged = 1, modified = 1, untracked = 1, conflicts = 1,
                  unpushed = 2, stashes = 1, hasChanges = True \<rparr>"
  by (simp add: status_eval demoExec_def)

text \<open>
  Claim C8. A line whose first character is one of \<^verbatim>\<open>MADRC\<close> and whose second character
  is \<^verbatim>\<open>M\<close> or \<^verbatim>\<open>D\<close> is counted as staged and as modified: the two tests look at
  different positions and are independent.
\<close>

theorem staged_and_modified_overlap:
  assumes "c \<in> set ''MADRC''" and "d \<in> set ''MD''"
  shows "isStaged (c # d # rest) \<and> isModified (c # d # rest)
    \<and> length (filter isStaged [c # d # rest]) = 1
    \<and> length (filter isModified [c # d # rest]) = 1"
  using assms by (auto simp: isStaged_def isModified_def)

text \<open>The line \<^verbatim>\<open>MM file\<close> is such a line, and \<^verbatim>\<open>getGitStatus\<close> counts it twice.\<close>

theorem staged_and_modified_overlap_witness:
  "CHR ''M'' \<in> set ''MADRC'' \<and> CHR ''M'' \<in> set ''MD''
   \<and> isStaged ''MM file'' \<and> isModified ''MM file''
   \<and> length (filter isStaged [''MM file'']) = 1
   \<and> length (filter isModified [''MM file'']) = 1
   \<and> getGitStatus (\<lambda>cmd p. case cmd of GitStatusPorcelain \<Rightarrow> Inr (''MM file'' @ [newline])
                                   | _ \<Rightarrow> Inr []) [''home'', ''app'']
       = Status \<lparr> branch = ''detached HEAD'', staged = 1, modified = 1, untracked = 0,
                  conflicts = 0, unpushed = 0, stashes = 0, hasChanges = True \<rparr>"
proof -
  have h: "CHR ''M'' \<in> set ''MADRC''" "CHR ''M'' \<in> set ''MD''" by simp_all
  from staged_and_modified_overlap[OF h, of "'' file''"] h show ?thesis
    by (simp add: status_eval)
qed

text \<open>What \<^verbatim>\<open>getGitStatus\<close> returns on each side of the outer \<^verbatim>\<open>try\<close>.\<close>

lemma getGitStatus_failure:
  "ex GitStatusPorcelain p = Inl msg \<Longrightarrow> getGitStatus ex p = StatusError msg False"
  by (simp add: getGitStatus_def)

lemma getGitStatus_success:
  "ex GitStatusPorcelain p = Inr out \<Longrightarrow>
     \<exists>r. getGitStatus ex p = Status r
       \<and> staged r = length (filter isStaged (nonBlankLines out))
       \<and> modified r = length (filter isModified (nonBlankLines out))
       \<and> untracked r = length (filter isUntracked (nonBlankLines out))
       \<and> conflicts r = length (filter isConflict (nonBlankLines out))
       \<and> hasChanges r = (length (nonBlankLines out) > 0 \<or> unpushed r > 0 \<or> stashes r > 0)
       \<and> (\<forall>m. ex GitBranchShowCurrent p = Inl m \<longrightarrow> branch r = ''detached HEAD'')
       \<and> (\<forall>m. ex GitRevListAhead p = Inl m \<longrightarrow> unpushed r = 0)
       \<and> (\<forall>m. ex GitStashList p = Inl m \<longrightarrow> stashes r = 0)"
  by (auto simp: getGitStatus_def Let_def)

text \<open>
  Claim C2 as stated fails. A status line such as \<^verbatim>\<open> T link.txt\<close> (a file whose type
  changed) is in none of the four categories, so all six counts are zero, yet
  \<^verbatim>\<open>hasChanges\<close> is true: it is computed from the number of status lines.
\<close>

theorem hasChanges_counterexample:
  "demoExec GitStatusPorcelain [''home'', ''docs''] = Inr ('' T link.txt'' @ [newline])
   \<and> getGitStatus demoExec [''home'', ''docs'']
     = Status \<lparr> branch = ''detached HEAD'', staged = 0, modified = 0, untracked = 0,
                conflicts = 0, unpushed = 0, stashes = 0, hasChanges = True \<rparr>"
  by (simp add: status_eval demoExec_def)

text \<open>
  Claim C2, amended. For every record collected without error, \<^verbatim>\<open>hasChanges\<close> is true
  if and only if the status output has a non-blank line, or \<^verbatim>\<open>unpushed\<close> is positive,
  or \<^verbatim>\<open>stashes\<close> is positive. Whenever one of the six counts is positive,
  \<^verbatim>\<open>hasChanges\<close> is true.
\<close>

theorem hasChanges_derivation:
  assumes "ex GitStatusPorcelain p = Inr out"
  shows "\<exists>r. getGitStatus ex p = Status r
    \<and> (hasChanges r \<longleftrightarrow> length (nonBlankLines out) > 0 \<or> unpushed r > 0 \<or> stashes r > 0)
    \<and> (staged r > 0 \<or> modified r > 0 \<or> untracked r > 0 \<or> conflicts r > 0
         \<or> unpushed r > 0 \<or> stashes r > 0 \<longrightarrow> hasChanges r)"
proof -
  from getGitStatus_success[of ex p out, OF assms] obtain r where r: "getGitStatus ex p = Status r"
    "staged r = length (filter isStaged (nonBlankLines out))"
    "modified r = length (filter isModified (nonBlankLines out))"
    "untracked r = length (filter isUntracked (nonBlankLines out))"
    "conflicts r = length (filter isConflict (nonBlankLines out))"
    "hasChanges r = (length (nonBlankLines out) > 0 \<or> unpushed r > 0 \<or> stashes r > 0)"
    "\<forall>m. ex GitBranchShowCurrent p = Inl m \<longrightarrow> branch r = ''detached HEAD''"
    "\<forall>m. ex GitRevListAhead p = Inl m \<longrightarrow> unpushed r = 0"
    "\<forall>m. ex GitStashList p = Inl m \<longrightarrow> stashes r = 0"
    by (elim exE conjE)
  have "filter P (nonBlankLines out) \<noteq> [] \<Longrightarrow> nonBlankLines out \<noteq> []" for P
    by (cases "nonBlankLines out") simp_all
  with r(2-6) have "staged r > 0 \<or> modified r > 0 \<or> untracked r > 0 \<or> conflicts r > 0
         \<or> unpushed r > 0 \<or> stashes r > 0 \<longrightarrow> hasChanges r"
    by auto
  with r(1,6) show ?thesis by (intro exI[of _ r]) simp
qed

text \<open>The repository \<^verbatim>\<open>app\<close> of the demo has four status lines and pending changes.\<close>

theorem hasChanges_derivation_witness:
  "demoExec GitStatusPorcelain [''home'', ''app'']
     = Inr (''M  file1.txt'' @ [newline] @ '' M file2.txt'' @ [newline]
            @ ''?? file3.txt'' @ [newline] @ ''UU file4.txt'' @ [newline])
   \<and> hasChangesOf (getGitStatus demoExec [''home'', ''app''])
   \<and> length (nonBlankLines (''M  file1.txt'' @ [newline] @ '' M file2.txt'' @ [newline]
            @ ''?? file3.txt'' @ [newline] @ ''UU file4.txt'' @ [newline])) = 4"
proof -
  have h: "demoExec GitStatusPorcelain [''home'', ''app'']
     = Inr (''M  file1.txt'' @ [newline] @ '' M file2.txt'' @ [newline]
            @ ''?? file3.txt'' @ [newline] @ ''UU file4.txt'' @ [newline])"
    by (simp add: demoExec_def)
  have n: "length (nonBlankLines (''M  file1.txt'' @ [newline] @ '' M file2.txt'' @ [newline]
            @ ''?? file3.txt'' @ [newline] @ ''UU file4.txt'' @ [newline])) = 4"
    by (simp add: status_eval)
  from hasChanges_derivation[of demoExec "[''home'', ''app'']", OF h] n obtain r where
    "getGitStatus demoExec [''home'', ''app''] = Status r" "hasChanges r"
    by auto
  then have "hasChangesOf (getGitStatus demoExec [''home'', ''app''])" by simp
  with h n show ?thesis by simp
qed

text \<open>
  Claim C6. When the status query throws, the record is the error record. When it
  succeeds the record is never an error record, whatever the other three queries do:
  a failed branch query gives the branch \<^verbatim>\<open>detached HEAD\<close>, a failed ahead query gives
  \<^verbatim>\<open>unpushed = 0\<close>, a failed stash query gives \<^verbatim>\<open>stashes = 0\<close>.
\<close>

theorem failure_isolation:
  "(\<forall>msg. ex GitStatusPorcelain p = Inl msg \<longrightarrow> getGitStatus ex p = StatusError msg False)
   \<and> (\<forall>out. ex GitStatusPorcelain p = Inr out \<longrightarrow>
        (\<exists>r. getGitStatus ex p = Status r
           \<and> (\<forall>m. ex GitBranchShowCurrent p = Inl m \<longrightarrow> branch r = ''detached HEAD'')
           \<and> (\<forall>m. ex GitRevListAhead p = Inl m \<longrightarrow> unpushed r = 0)
           \<and> (\<forall>m. ex GitStashList p = Inl m \<longrightarrow> stashes r = 0)))"
proof (intro conjI allI impI)
  fix msg assume "ex GitStatusPorcelain p = Inl msg"
  then show "getGitStatus ex p = StatusError msg False" by (rule getGitStatus_failure)
next
  fix out assume "ex GitStatusPorcelain p = Inr out"
  with getGitStatus_success[of ex p out]
  show "\<exists>r. getGitStatus ex p = Status r
           \<and> (\<forall>m. ex GitBranchShowCurrent p = Inl m \<longrightarrow> branch r = ''detached HEAD'')
           \<and> (\<forall>m. ex GitRevListAhead p = Inl m \<longrightarrow> unpushed r = 0)
           \<and> (\<forall>m. ex GitStashList p = Inl m \<longrightarrow> stashes r = 0)"
    by blast
qed

text \<open>
  In the demo the status query fails in \<^verbatim>\<open>work/svc/api\<close>; in \<^verbatim>\<open>docs\<close> it succeeds and
  the three other queries fail.
\<close>

theorem failure_isolation_witness:
  "demoExec GitStatusPorcelain [''home'', ''work'', ''svc'', ''api'']
     = Inl ''Command failed: git status --porcelain''
   \<and> getGitStatus demoExec [''home'', ''work'', ''svc'', ''api'']
     = StatusError ''Command failed: git status --porcelain'' False
   \<and> demoExec GitStatusPorcelain [''home'', ''docs''] = Inr ('' T link.txt'' @ [newline])
   \<and> demoExec GitBranchShowCurrent [''home'', ''docs''] = Inl ''Command failed''
   \<and> demoExec GitRevListAhead [''home'', ''docs''] = Inl ''Command failed''
   \<and> demoExec GitStashList [''home'', ''docs''] = Inl ''Command failed''
   \<and> (\<exists>r. getGitStatus demoExec [''home'', ''docs''] = Status r
         \<and> branch r = ''detached HEAD'' \<and> unpushed r = 0 \<and> stashes r = 0)"
proof -
  have a: "demoExec GitStatusPorcelain [''home'', ''work'', ''svc'', ''api'']
     = Inl ''Command failed: git status --porcelain''"
    and b: "demoExec GitStatusPorcelain [''home'', ''docs''] = Inr ('' T link.txt'' @ [newline])"
    and c: "demoExec GitBranchShowCurrent [''home'', ''docs''] = Inl ''Command failed''"
      "demoExec GitRevListAhead [''home'', ''docs''] = Inl ''Command failed''"
      "demoExec GitStashList [''home'', ''docs''] = Inl ''Command failed''"
    by (simp_all add: demoExec_def)
  note t1 = failure_isolation[of demoExec "[''home'', ''work'', ''svc'', ''api'']"]
  note t2 = failure_isolation[of demoExec "[''home'', ''docs'']"]
  from t1 a have e: "getGitStatus demoExec [''home'', ''work'', ''svc'', ''api'']
     = StatusError ''Command failed: git status --porcelain'' False"
    by simp
  from mp[OF spec[OF conjunct2[OF t2]] b] c
  have "\<exists>r. getGitStatus demoExec [''home'', ''docs''] = Status r
         \<and> branch r = ''detached HEAD'' \<and> unpushed r = 0 \<and> stashes r = 0"
    by auto
  with a b c e show ?thesis by simp
qed

subsection \<open>The claims about the report and the exit status\<close>

text \<open>The loop counts the repositories with changes and keeps every rendered line.\<close>

lemma scanRepos_count:
  "fst (scanRepos ex base all repos (n, rs))
     = n + length (filter (\<lambda>p. hasChangesOf (getGitStatus ex p)) repos)"
  by (induction repos arbitrary: n rs) (simp_all add: Let_def)

lemma scanRepos_keeps:
  "l \<in> set rs \<Longrightarrow> l \<in> set (snd (scanRepos ex base all repos (n, rs)))"
  by (induction repos arbitrary: n rs) (simp_all add: Let_def split: option.split)

lemma scanRepos_renders:
  "p \<in> set repos \<Longrightarrow> formatStatus p (getGitStatus ex p) base = Some l
     \<Longrightarrow> l \<in> set (snd (scanRepos ex base all repos (n, rs)))"
proof (induction repos arbitrary: n rs)
  case Nil
  then show ?case by simp
next
  case (Cons q repos)
  show ?case
  proof (cases "q = p")
    case True
    with Cons.prems(2) show ?thesis
      by (simp add: Let_def scanRepos_keeps)
  next
    case False
    with Cons.prems(1) have "p \<in> set repos" by simp
    from Cons.IH[OF this Cons.prems(2)] show ?thesis
      by (simp add: Let_def)
  qed
qed

text \<open>\<^verbatim>\<open>main\<close> when the scan runs and finds a repository, and its exit status in general.\<close>

lemma main_scan:
  assumes "\<not> showHelp (optionsOf e args)"
    and "existsSync (fileSystem e) (searchPath (optionsOf e args))"
    and "scannedRepos e args \<noteq> []"
  shows "main e args =
     ([ScanHeader (searchPath (optionsOf e args))]
      @ (if snd (scanRepos (execSync e) (searchPath (optionsOf e args)) (showAll (optionsOf e args))
                  (scannedRepos e args) (0, [])) \<noteq> []
         then [Report (snd (scanRepos (execSync e) (searchPath (optionsOf e args))
                  (showAll (optionsOf e args)) (scannedRepos e args) (0, [])))]
         else [])
      @ [Summary (int (length (scannedRepos e args)))
           (int (length (filter (\<lambda>p. hasChangesOf (getGitStatus (execSync e) p)) (scannedRepos e args))))
           (int (length (scannedRepos e args))
            - int (length (filter (\<lambda>p. hasChangesOf (getGitStatus (execSync e) p)) (scannedRepos e args))))],
      if length (filter (\<lambda>p. hasChangesOf (getGitStatus (execSync e) p)) (scannedRepos e args)) > 0
      then 1 else 0)"
proof -
  obtain c rs where s: "scanRepos (execSync e) (searchPath (optionsOf e args))
      (showAll (optionsOf e args)) (scannedRepos e args) (0, []) = (c, rs)"
    by (cases "scanRepos (execSync e) (searchPath (optionsOf e args))
      (showAll (optionsOf e args)) (scannedRepos e args) (0, [])")
  from scanRepos_count[of "execSync e" "searchPath (optionsOf e args)" "showAll (optionsOf e args)"
      "scannedRepos e args" 0 "[]"] s
  have c: "c = length (filter (\<lambda>p. hasChangesOf (getGitStatus (execSync e) p)) (scannedRepos e args))"
    by simp
  from assms s c show ?thesis
    by (simp add: main_def Let_def)
qed

lemma main_exit:
  "snd (main e args) =
     (if showHelp (optionsOf e args) then 0
      else if \<not> existsSync (fileSystem e) (searchPath (optionsOf e args)) then 1
      else if length (filter (\<lambda>p. hasChangesOf (getGitStatus (execSync e) p)) (scannedRepos e args)) > 0
      then 1 else 0)"
proof (cases "\<not> showHelp (optionsOf e args)
    \<and> existsSync (fileSystem e) (searchPath (optionsOf e args)) \<and> scannedRepos e args \<noteq> []")
  case True
  then show ?thesis by (simp add: main_scan)
next
  case False
  then show ?thesis by (auto simp: main_def Let_def)
qed

lemmas main_eval = optionsOf_def scannedRepos_def posixResolve_def

text \<open>
  Claim C3 as stated fails. With the arguments \<^verbatim>\<open>-h /nonexistent\<close> the supplied path does
  not exist and the process exits with status 0: the help is printed before the path is
  checked.
\<close>

theorem exit_status_counterexample:
  "showHelp (optionsOf demoEnv [''-h'', ''/nonexistent''])
   \<and> searchPath (optionsOf demoEnv [''-h'', ''/nonexistent'']) = [''nonexistent'']
   \<and> \<not> existsSync (fileSystem demoEnv) [''nonexistent'']
   \<and> main demoEnv [''-h'', ''/nonexistent''] = ([HelpText], 0)"
  by (simp add: main_def main_eval demoEnv_def demoFs_def demoExists_def startsWith_def)

text \<open>
  Claim C3, amended. The exit status is 0 when the help is requested; otherwise it is 1
  when the scan path does not exist; otherwise it is 1 when some repository found has
  \<^verbatim>\<open>hasChanges\<close>, and 0 when none has (also when none is found). When the scan finds a
  repository, the summary gives the number found, the number with changes and their
  difference; fifteen repositories of which two have changes are reported as 15, 2 and
  13, with exit status 1.
\<close>

theorem exit_status_and_summary:
  "snd (main e args) =
     (if showHelp (optionsOf e args) then 0
      else if \<not> existsSync (fileSystem e) (searchPath (optionsOf e args)) then 1
      else if \<exists>p \<in> set (scannedRepos e args). hasChangesOf (getGitStatus (execSync e) p) then 1
      else 0)
   \<and> (\<not> showHelp (optionsOf e args)
        \<and> existsSync (fileSystem e) (searchPath (optionsOf e args))
        \<and> scannedRepos e args \<noteq> []
      \<longrightarrow> Summary (int (length (scannedRepos e args)))
            (int (length (filter (\<lambda>p. hasChangesOf (getGitStatus (execSync e) p)) (scannedRepos e args))))
            (int (length (scannedRepos e args))
             - int (length (filter (\<lambda>p. hasChangesOf (getGitStatus (execSync e) p)) (scannedRepos e args))))
          \<in> set (fst (main e args)))
   \<and> (\<not> showHelp (optionsOf e args)
        \<and> existsSync (fileSystem e) (searchPath (optionsOf e args))
        \<and> length (scannedRepos e args) = 15
        \<and> length (filter (\<lambda>p. hasChangesOf (getGitStatus (execSync e) p)) (scannedRepos e args)) = 2
      \<longrightarrow> Summary 15 2 13 \<in> set (fst (main e args)) \<and> snd (main e args) = 1)"
proof (intro conjI impI)
  have "(\<exists>p \<in> set (scannedRepos e args). hasChangesOf (getGitStatus (execSync e) p))
     \<longleftrightarrow> length (filter (\<lambda>p. hasChangesOf (getGitStatus (execSync e) p)) (scannedRepos e args)) > 0"
    by (simp add: filter_empty_conv)
  then show "snd (main e args) =
     (if showHelp (optionsOf e args) then 0
      else if \<not> existsSync (fileSystem e) (searchPath (optionsOf e args)) then 1
      else if \<exists>p \<in> set (scannedRepos e args). hasChangesOf (getGitStatus (execSync e) p) then 1
      else 0)"
    by (simp only: main_exit)
next
  assume "\<not> showHelp (optionsOf e args)
        \<and> existsSync (fileSystem e) (searchPath (optionsOf e args))
        \<and> scannedRepos e args \<noteq> []"
  then show "Summary (int (length (scannedRepos e args)))
            (int (length (filter (\<lambda>p. hasChangesOf (getGitStatus (execSync e) p)) (scannedRepos e args))))
            (int (length (scannedRepos e args))
             - int (length (filter (\<lambda>p. hasChangesOf (getGitStatus (execSync e) p)) (scannedRepos e args))))
          \<in> set (fst (main e args))"
    by (simp add: main_scan)
next
  assume a: "\<not> showHelp (optionsOf e args)
        \<and> existsSync (fileSystem e) (searchPath (optionsOf e args))
        \<and> length (scannedRepos e args) = 15
        \<and> length (filter (\<lambda>p. hasChangesOf (getGitStatus (execSync e) p)) (scannedRepos e args)) = 2"
  then have ne: "scannedRepos e args \<noteq> []" by auto
  from a ne show "Summary 15 2 13 \<in> set (fst (main e args))"
    by (simp add: main_scan)
next
  assume a: "\<not> showHelp (optionsOf e args)
        \<and> existsSync (fileSystem e) (searchPath (optionsOf e args))
        \<and> length (scannedRepos e args) = 15
        \<and> length (filter (\<lambda>p. hasChangesOf (getGitStatus (execSync e) p)) (scannedRepos e args)) = 2"
  then show "snd (main e args) = 1"
    by (simp add: main_exit)
qed

text \<open>The workspace of fifteen repositories.\<close>

lemma fifteen_repos:
  "scannedRepos fifteenEnv [] = map (\<lambda>n. [''ws'', n]) fifteenNames"
  by (simp add: main_eval fifteenEnv_def fifteenFs_def fifteenNames_def findGitRepos_def
      findGitRepos_traced.simps isGitRepo_def skipped_def startsWith_def)

lemma fifteen_pending:
  "filter (\<lambda>p. hasChangesOf (getGitStatus (execSync fifteenEnv) p)) (map (\<lambda>n. [''ws'', n]) fifteenNames)
     = [[''ws'', ''r03''], [''ws'', ''r11'']]"
  by (simp add: fifteenEnv_def fifteenExec_def fifteenNames_def status_eval)

text \<open>
  The workspace of fifteen repositories gives the summary 15, 2, 13 and status 1; an
  unlistable scan root gives 0, a missing one 1, the help 0.
\<close>

theorem exit_status_and_summary_witness:
  "\<not> showHelp (optionsOf fifteenEnv [])
   \<and> existsSync (fileSystem fifteenEnv) (searchPath (optionsOf fifteenEnv []))
   \<and> length (scannedRepos fifteenEnv []) = 15
   \<and> length (filter (\<lambda>p. hasChangesOf (getGitStatus (execSync fifteenEnv) p))
        (scannedRepos fifteenEnv [])) = 2
   \<and> Summary 15 2 13 \<in> set (fst (main fifteenEnv []))
   \<and> snd (main fifteenEnv []) = 1
   \<and> snd (main demoEnv [''/home/locked'']) = 0
   \<and> snd (main demoEnv [''/nonexistent'']) = 1
   \<and> snd (main demoEnv [''--help'']) = 0"
proof -
  have h: "\<not> showHelp (optionsOf fifteenEnv [])
     \<and> existsSync (fileSystem fifteenEnv) (searchPath (optionsOf fifteenEnv []))
     \<and> length (scannedRepos fifteenEnv []) = 15
     \<and> length (filter (\<lambda>p. hasChangesOf (getGitStatus (execSync fifteenEnv) p))
          (scannedRepos fifteenEnv [])) = 2"
    unfolding fifteen_repos fifteen_pending
    by (simp add: main_eval fifteenEnv_def fifteenFs_def fifteenNames_def)
  note t = exit_status_and_summary[of fifteenEnv "[]"]
  from mp[OF conjunct2[OF conjunct2[OF t]] h]
  have s: "Summary 15 2 13 \<in> set (fst (main fifteenEnv [])) \<and> snd (main fifteenEnv []) = 1" .
  have l: "scannedRepos demoEnv [''/home/locked''] = []"
    by (simp add: main_eval demoEnv_def demoFs_def demoListing_def demoExists_def findGitRepos_def
      findGitRepos_traced.simps startsWith_def)
  have o: "\<not> showHelp (optionsOf demoEnv [''/home/locked''])"
    "existsSync (fileSystem demoEnv) (searchPath (optionsOf demoEnv [''/home/locked'']))"
    "\<not> showHelp (optionsOf demoEnv [''/nonexistent''])"
    "\<not> existsSync (fileSystem demoEnv) (searchPath (optionsOf demoEnv [''/nonexistent'']))"
    "showHelp (optionsOf demoEnv [''--help''])"
    by (simp_all add: main_eval demoEnv_def demoFs_def demoExists_def startsWith_def)
  from conjunct1[OF exit_status_and_summary[of demoEnv "[''/home/locked'']"]] l o
  have z: "snd (main demoEnv [''/home/locked'']) = 0" by simp
  from conjunct1[OF exit_status_and_summary[of demoEnv "[''/nonexistent'']"]] o
  have m: "snd (main demoEnv [''/nonexistent'']) = 1" by simp
  from conjunct1[OF exit_status_and_summary[of demoEnv "[''--help'']"]] o
  have p: "snd (main demoEnv [''--help'']) = 0" by simp
  from h s z m p show ?thesis by simp
qed

text \<open>
  Claim C9. Let the status query of a scanned repository throw (the message of a thrown
  error is not empty). Its record is the error record, with \<^verbatim>\<open>hasChanges\<close> false. The
  report holds its error line, with or without \<^verbatim>\<open>--all\<close>. The tally of repositories
  with changes counts only the other repositories, so this one is among the clean ones,
  and the exit status is 1 only when another repository has changes.
\<close>

theorem error_record_rendered_not_counted:
  assumes "execSync e GitStatusPorcelain p = Inl msg" and "msg \<noteq> []"
    and "\<not> showHelp (optionsOf e args)"
    and "existsSync (fileSystem e) (searchPath (optionsOf e args))"
    and "p \<in> set (scannedRepos e args)"
  shows "getGitStatus (execSync e) p = StatusError msg False
    \<and> \<not> hasChangesOf (getGitStatus (execSync e) p)
    \<and> (\<exists>lines. Report lines \<in> set (fst (main e args))
          \<and> ErrorLine (relative (searchPath (optionsOf e args)) p) msg \<in> set lines)
    \<and> Summary (int (length (scannedRepos e args)))
         (int (length (filter (\<lambda>q. q \<noteq> p \<and> hasChangesOf (getGitStatus (execSync e) q))
                  (scannedRepos e args))))
         (int (length (scannedRepos e args))
          - int (length (filter (\<lambda>q. q \<noteq> p \<and> hasChangesOf (getGitStatus (execSync e) q))
                  (scannedRepos e args))))
       \<in> set (fst (main e args))
    \<and> length (filter (\<lambda>q. q \<noteq> p \<and> hasChangesOf (getGitStatus (execSync e) q))
                  (scannedRepos e args)) < length (scannedRepos e args)
    \<and> snd (main e args) =
        (if \<exists>q \<in> set (scannedRepos e args). q \<noteq> p \<and> hasChangesOf (getGitStatus (execSync e) q)
         then 1 else 0)"
proof -
  let ?base = "searchPath (optionsOf e args)"
  let ?repos = "scannedRepos e args"
  let ?rs = "snd (scanRepos (execSync e) ?base (showAll (optionsOf e args)) ?repos (0, []))"
  have st: "getGitStatus (execSync e) p = StatusError msg False"
    using assms(1) by (rule getGitStatus_failure)
  then have clean: "\<not> hasChangesOf (getGitStatus (execSync e) p)" by simp
  from assms(5) have ne: "?repos \<noteq> []" by auto
  note m = main_scan[OF assms(3,4) ne]
  have "formatStatus p (getGitStatus (execSync e) p) ?base = Some (ErrorLine (relative ?base p) msg)"
    using st assms(2) by simp
  from scanRepos_renders[OF assms(5) this]
  have line: "ErrorLine (relative ?base p) msg \<in> set ?rs" .
  then have "?rs \<noteq> []" by auto
  with m have "Report ?rs \<in> set (fst (main e args))" by simp
  with line have rendered: "\<exists>lines. Report lines \<in> set (fst (main e args))
          \<and> ErrorLine (relative ?base p) msg \<in> set lines"
    by blast
  have same: "(\<lambda>q. q \<noteq> p \<and> hasChangesOf (getGitStatus (execSync e) q))
      = (\<lambda>q. hasChangesOf (getGitStatus (execSync e) q))"
    using clean by auto
  have summary: "Summary (int (length ?repos))
         (int (length (filter (\<lambda>q. q \<noteq> p \<and> hasChangesOf (getGitStatus (execSync e) q)) ?repos)))
         (int (length ?repos)
          - int (length (filter (\<lambda>q. q \<noteq> p \<and> hasChangesOf (getGitStatus (execSync e) q)) ?repos)))
       \<in> set (fst (main e args))"
    unfolding same using m by simp
  have "length (filter (\<lambda>q. hasChangesOf (getGitStatus (execSync e) q)) ?repos) < length ?repos"
    using assms(5) clean by (intro length_filter_less[of p])
  then have less: "length (filter (\<lambda>q. q \<noteq> p \<and> hasChangesOf (getGitStatus (execSync e) q)) ?repos)
      < length ?repos"
    unfolding same .
  have "(\<exists>q \<in> set ?repos. hasChangesOf (getGitStatus (execSync e) q))
     \<longleftrightarrow> length (filter (\<lambda>q. hasChangesOf (getGitStatus (execSync e) q)) ?repos) > 0"
    by (simp add: filter_empty_conv)
  with assms(3,4) have exit: "snd (main e args) =
        (if \<exists>q \<in> set ?repos. q \<noteq> p \<and> hasChangesOf (getGitStatus (execSync e) q) then 1 else 0)"
    unfolding same by (simp add: main_exit)
  from st clean rendered summary less exit show ?thesis by (intro conjI)
qed

text \<open>
  Scanning \<^verbatim>\<open>/home/work\<close> of the demo finds only \<^verbatim>\<open>svc/api\<close>, whose status query fails:
  the error line is printed, the summary is 1, 0, 1 and the exit status is 0.
\<close>

theorem error_record_rendered_not_counted_witness:
  "execSync demoEnv GitStatusPorcelain [''home'', ''work'', ''svc'', ''api'']
     = Inl ''Command failed: git status --porcelain''
   \<and> scannedRepos demoEnv [''/home/work''] = [[''home'', ''work'', ''svc'', ''api'']]
   \<and> getGitStatus (execSync demoEnv) [''home'', ''work'', ''svc'', ''api'']
       = StatusError ''Command failed: git status --porcelain'' False
   \<and> (\<exists>lines. Report lines \<in> set (fst (main demoEnv [''/home/work'']))
         \<and> ErrorLine [''svc'', ''api''] ''Command failed: git status --porcelain'' \<in> set lines)
   \<and> Summary 1 0 1 \<in> set (fst (main demoEnv [''/home/work'']))
   \<and> snd (main demoEnv [''/home/work'']) = 0"
proof -
  have a: "execSync demoEnv GitStatusPorcelain [''home'', ''work'', ''svc'', ''api'']
     = Inl ''Command failed: git status --porcelain''"
    by (simp add: demoEnv_def demoExec_def)
  have b: "''Command failed: git status --porcelain'' \<noteq> []" by simp
  have o: "searchPath (optionsOf demoEnv [''/home/work'']) = [''home'', ''work'']"
    "\<not> showHelp (optionsOf demoEnv [''/home/work''])"
    by (simp_all add: main_eval demoEnv_def startsWith_def)
  have c: "existsSync (fileSystem demoEnv) (searchPath (optionsOf demoEnv [''/home/work'']))"
    unfolding o by (simp add: demoEnv_def demoFs_def demoExists_def)
  have r: "scannedRepos demoEnv [''/home/work''] = [[''home'', ''work'', ''svc'', ''api'']]"
    by (simp add: main_eval demoEnv_def demoFs_def demoListing_def demoExists_def findGitRepos_def
      findGitRepos_traced.simps isGitRepo_def skipped_def startsWith_def)
  then have d: "[''home'', ''work'', ''svc'', ''api''] \<in> set (scannedRepos demoEnv [''/home/work''])"
    by simp
  from error_record_rendered_not_counted[OF a b o(2) c d] a r show ?thesis
    by (simp add: o)
qed

end
